theory Spec2Isabelle
  imports Complex_Main "HOL-Library.Word" "HOL-Library.AList"
begin

section \<open>The texture-pack optimizer of \<^verbatim>\<open>src/api/optimize.js\<close>\<close>

text \<open>
  The repository is one HTTP handler: it iterates the entries of an uploaded zip archive,
  recompresses the image entries through the \<^verbatim>\<open>sharp\<close> library, writes every entry
  to a new \<^verbatim>\<open>JSZip\<close> archive and reports statistics. The source file holds the handler
  twice (an older copy is appended after line 374); the embedding follows the first,
  complete copy, lines 1 to 374.

  Conventions of the embedding.
  \<^item> A JavaScript string is a \<^typ>\<open>string\<close>: a list of code units below 256. Case
    mapping is the one of JavaScript on that range (ASCII and Latin-1 letters).
  \<^item> A \<^verbatim>\<open>Buffer\<close> is a list of bytes; only its length and identity matter here.
  \<^item> The request options are taken after \<^verbatim>\<open>parseInt\<close>: resolution and quality are
    integers (the \<^verbatim>\<open>NaN\<close> that \<^verbatim>\<open>parseInt\<close> returns on a non-numeric field is outside
    the options the handler is specified for).
  \<^item> The two libraries are not part of the repository. \<^verbatim>\<open>sharp\<close> is a parameter of the
    model (a record of functions that may fail); \<^verbatim>\<open>JSZip\<close> is modelled by the calls made
    on the output archive and by the table of entries these calls produce.
\<close>

subsection \<open>Strings\<close>

definition toLowerCase_char :: "char \<Rightarrow> char" where
  "toLowerCase_char c =
     (let n = (of_char c :: nat)
      in if (65 \<le> n \<and> n \<le> 90) \<or> (192 \<le> n \<and> n \<le> 222 \<and> n \<noteq> 215)
         then char_of (n + 32) else c)"

definition toLowerCase :: "string \<Rightarrow> string" where
  "toLowerCase s = map toLowerCase_char s"

text \<open>
  \<^verbatim>\<open>Canonicalize\<close> of a regular expression with the flag \<^verbatim>\<open>i\<close> and without \<^verbatim>\<open>u\<close>: a
  code unit is mapped to its upper case, except that a code unit from 128 on is never
  mapped to one below 128. Every pattern of the handler is ASCII, so a code unit from 128
  on never matches; it is left as it is.
\<close>

definition canonicalize :: "char \<Rightarrow> char" where
  "canonicalize c =
     (let n = (of_char c :: nat)
      in if 97 \<le> n \<and> n \<le> 122 then char_of (n - 32) else c)"

fun startsWith :: "string \<Rightarrow> string \<Rightarrow> bool" where
  "startsWith s [] = True"
| "startsWith [] (p # ps) = False"
| "startsWith (c # cs) (p # ps) = (c = p \<and> startsWith cs ps)"

text \<open>\<^verbatim>\<open>s.includes(p)\<close>: \<open>p\<close> occurs in \<open>s\<close> as a contiguous substring.\<close>

fun includes_str :: "string \<Rightarrow> string \<Rightarrow> bool" where
  "includes_str [] p = (p = [])"
| "includes_str (c # cs) p = (startsWith (c # cs) p \<or> includes_str cs p)"

definition endsWith :: "string \<Rightarrow> string \<Rightarrow> bool" where
  "endsWith s p = (length p \<le> length s \<and> drop (length s - length p) s = p)"

text \<open>The three shapes of regular expression the source uses, all with the flag \<^verbatim>\<open>i\<close>:
  \<^verbatim>\<open>/^lit$/i\<close>, \<^verbatim>\<open>/lit$/i\<close> and \<^verbatim>\<open>/lit/i\<close>, for a literal \<open>lit\<close>.\<close>

definition test_exact_i :: "string \<Rightarrow> string \<Rightarrow> bool" where
  "test_exact_i lit s = (map canonicalize s = map canonicalize lit)"

definition test_suffix_i :: "string \<Rightarrow> string \<Rightarrow> bool" where
  "test_suffix_i lit s = endsWith (map canonicalize s) (map canonicalize lit)"

definition test_contains_i :: "string \<Rightarrow> string \<Rightarrow> bool" where
  "test_contains_i lit s = includes_str (map canonicalize s) (map canonicalize lit)"

subsection \<open>Classification of file names (lines 106 to 126)\<close>

text \<open>\<^verbatim>\<open>/\.(png|jpg|jpeg)$/i\<close>\<close>

definition isImageFile :: "string \<Rightarrow> bool" where
  "isImageFile filename =
     (test_suffix_i ''.png'' filename \<or> test_suffix_i ''.jpg'' filename
      \<or> test_suffix_i ''.jpeg'' filename)"

definition isCriticalFile :: "string \<Rightarrow> bool" where
  "isCriticalFile filename =
     (test_exact_i ''pack.mcmeta'' filename
      \<or> test_exact_i ''pack.png'' filename
      \<or> test_suffix_i ''.mcmeta'' filename
      \<or> test_suffix_i ''.json'' filename
      \<or> test_suffix_i ''.bbmodel'' filename
      \<or> test_suffix_i ''.txt'' filename
      \<or> test_suffix_i ''.properties'' filename
      \<or> test_contains_i ''font/'' filename)"

text \<open>\<^verbatim>\<open>/\.(ogg|wav|mp3)$/i\<close>\<close>

definition isSoundFile :: "string \<Rightarrow> bool" where
  "isSoundFile filename =
     (test_suffix_i ''.ogg'' filename \<or> test_suffix_i ''.wav'' filename
      \<or> test_suffix_i ''.mp3'' filename)"

subsection \<open>Numbers\<close>

text \<open>
  A JavaScript number is an IEEE 754 double. Sums and differences of byte counts and
  comparisons are exact (every count is below \<open>2^53\<close>); a division or a multiplication
  rounds its exact result to the nearest double, ties to the even significand. \<open>fl\<close> is
  that rounding on the rationals, for the normal range of exponents (no quotient of two
  byte counts or pixel counts leaves it).
\<close>

text \<open>The number of binary digits of a positive integer.\<close>

function bit_length :: "int \<Rightarrow> int" where
  "bit_length n = (if n \<le> 0 then 0 else 1 + bit_length (n div 2))"
  by pat_completeness auto
termination
  by (relation "measure nat") auto

declare bit_length.simps [simp del]

text \<open>The exponent \<open>e\<close> of a non-zero \<open>x\<close>: \<open>2^e \<le> \<bar>x\<bar> < 2^(e+1)\<close>.\<close>

definition binade :: "rat \<Rightarrow> int" where
  "binade x =
     (let (p, q) = quotient_of \<bar>x\<bar>;
          d = bit_length p - bit_length q
      in if of_int q * (2::rat) powi d \<le> of_int p then d else d - 1)"

definition round_half_even :: "rat \<Rightarrow> int" where
  "round_half_even m =
     (let f = \<lfloor>m\<rfloor>; d = m - of_int f
      in if d < 1 / 2 then f else if 1 / 2 < d then f + 1
         else if even f then f else f + 1)"

definition fl :: "rat \<Rightarrow> rat" where
  "fl x =
     (if x = 0 then 0
      else let ulp = (2::rat) powi (binade x - 52)
           in of_int (round_half_even (x / ulp)) * ulp)"

text \<open>\<^verbatim>\<open>Math.round\<close>: the nearest integer, a tie going up.\<close>

definition Math_round :: "rat \<Rightarrow> rat" where
  "Math_round x = of_int \<lfloor>x + 1 / 2\<rfloor>"

subsection \<open>Priority and resolution (lines 128 to 161)\<close>

datatype priority = High | Medium | Low

definition character_keywords :: "string list" where
  "character_keywords =
     [''ninja'', ''samurai'', ''warrior'', ''mage'', ''assassin'', ''paladin'',
      ''reaper'', ''dragon'', ''awakened'']"

definition getFolderPriority :: "string \<Rightarrow> priority" where
  "getFolderPriority filename =
     (let path = toLowerCase filename
      in if includes_str path ''modelengine'' then High
         else if list_ex (includes_str path) character_keywords then High
         else if includes_str path ''items'' \<or> includes_str path ''weapons'' then Medium
         else if includes_str path ''assets/minecraft/textures/'' then Low
         else Medium)"

text \<open>
  \<^verbatim>\<open>getOptimalResolution\<close>. The priority is one of the three strings
  \<^verbatim>\<open>getFolderPriority\<close> returns, so the \<^verbatim>\<open>default\<close> branch of the switch has no
  constructor. The base resolution is the integer \<^verbatim>\<open>parseInt\<close> returns; the product
  with 1.5 is a product of doubles, so it is rounded.
\<close>

definition getOptimalResolution :: "string \<Rightarrow> int \<Rightarrow> priority \<Rightarrow> rat" where
  "getOptimalResolution filename baseResolution p =
     (case p of
        High \<Rightarrow> min (of_int baseResolution) 256
      | Medium \<Rightarrow> of_int baseResolution
      | Low \<Rightarrow> min (fl (of_int baseResolution * (3 / 2))) 512)"

subsection \<open>The image library\<close>

type_synonym buffer = "8 word list"

datatype exn = Error string

text \<open>
  What \<^verbatim>\<open>metadata()\<close> resolves to: \<open>None\<close> is a field that is \<^verbatim>\<open>undefined\<close>.
\<close>

record image_metadata =
  width :: "nat option"
  height :: "nat option"

text \<open>
  The encoder chosen at lines 67 to 93. The options the source passes as constants are
  left out of the constructors:
  \<^item> \<open>Png_palette q\<close>: \<^verbatim>\<open>png({quality: q, compressionLevel: 9, palette: true, colors: 128, effort: 10, progressive: true})\<close>;
  \<^item> \<open>Png_adaptive q\<close>: \<^verbatim>\<open>png({quality: q, compressionLevel: 9, adaptiveFiltering: true, progressive: true})\<close>;
  \<^item> \<open>Webp q\<close>: \<^verbatim>\<open>webp({quality: q, effort: 6, alphaQuality: 95})\<close>;
  \<^item> \<open>Keep_format\<close>: no encoder call, the format is neither \<^verbatim>\<open>png\<close> nor \<^verbatim>\<open>webp\<close>.
\<close>

datatype encoder = Png_palette int | Png_adaptive int | Webp int | Keep_format

text \<open>
  The pipeline built on the image: the size given to \<^verbatim>\<open>resize\<close> (with \<^verbatim>\<open>fit: contain\<close>,
  \<^verbatim>\<open>withoutEnlargement\<close> and a transparent background), if it is called, and the encoder.
\<close>

record pipeline =
  resize :: "(rat \<times> rat) option"
  encoding :: encoder

text \<open>
  The library: \<open>sharp_metadata\<close> is \<^verbatim>\<open>sharp(buffer).metadata()\<close>, \<open>sharp_toBuffer\<close> is the
  pipeline run by \<^verbatim>\<open>toBuffer()\<close>, with the checks \<^verbatim>\<open>resize\<close>, \<^verbatim>\<open>png\<close> and \<^verbatim>\<open>webp\<close> make
  on their arguments. Each of them may throw.
\<close>

record sharp =
  sharp_metadata :: "buffer \<Rightarrow> exn + image_metadata"
  sharp_toBuffer :: "pipeline \<Rightarrow> buffer \<Rightarrow> exn + buffer"

subsection \<open>The recompressor (lines 11 to 104)\<close>

record image_options =
  opt_targetResolution :: rat
  opt_quality :: int
  opt_format :: string
  opt_aggressiveMode :: bool

text \<open>Lines 42 to 57: the new size of an image with a side of 512 or more.\<close>

definition new_size :: "rat \<Rightarrow> nat \<Rightarrow> nat \<Rightarrow> rat \<times> rat" where
  "new_size target w h =
     (let aspectRatio = fl (of_nat w / of_nat h)
      in if aspectRatio = 1 then
           (let n = min target (of_nat w) in (n, n))
         else if h < w then
           (let newWidth = min target (of_nat w)
            in (newWidth, Math_round (fl (newWidth / aspectRatio))))
         else
           (let newHeight = min target (of_nat h)
            in (Math_round (fl (newHeight * aspectRatio)), newHeight)))"

text \<open>Lines 67 to 93.\<close>

definition choose_encoder :: "image_options \<Rightarrow> encoder" where
  "choose_encoder options =
     (if opt_format options = ''png'' then
        (if opt_aggressiveMode options then Png_palette (opt_quality options - 5)
         else Png_adaptive (opt_quality options))
      else if opt_format options = ''webp'' then Webp (opt_quality options)
      else Keep_format)"

text \<open>The body of the \<^verbatim>\<open>try\<close>, lines 16 to 98: \<open>Inl\<close> is an exception thrown in it.\<close>

definition optimizeImage_body :: "sharp \<Rightarrow> buffer \<Rightarrow> string \<Rightarrow> image_options \<Rightarrow> exn + buffer" where
  "optimizeImage_body lib buffer filename options =
     (if buffer = [] then Inl (Error ''Empty image buffer'')
      else case sharp_metadata lib buffer of
        Inl e \<Rightarrow> Inl e
      | Inr metadata \<Rightarrow>
          (case (width metadata, height metadata) of
             (Some w, Some h) \<Rightarrow>
               if w = 0 \<or> h = 0 then Inr buffer
               else if w \<le> 32 \<and> h \<le> 32 then Inr buffer
               else
                 (let p = \<lparr>resize = (if 512 \<le> w \<or> 512 \<le> h
                                      then Some (new_size (opt_targetResolution options) w h)
                                      else None),
                           encoding = choose_encoder options\<rparr>
                  in case sharp_toBuffer lib p buffer of
                       Inl e \<Rightarrow> Inl e
                     | Inr optimized \<Rightarrow>
                         Inr (if length optimized < length buffer then optimized else buffer))
           | _ \<Rightarrow> Inr buffer))"

text \<open>The \<^verbatim>\<open>catch\<close>, lines 100 to 103, returns the buffer it was given.\<close>

definition optimizeImage :: "sharp \<Rightarrow> buffer \<Rightarrow> string \<Rightarrow> image_options \<Rightarrow> buffer" where
  "optimizeImage lib buffer filename options =
     (case optimizeImage_body lib buffer filename options of
        Inl e \<Rightarrow> buffer
      | Inr result \<Rightarrow> result)"

subsection \<open>The archive library\<close>

text \<open>
  An entry of \<^verbatim>\<open>zip.files\<close>: a directory (\<^verbatim>\<open>file.dir\<close>), a file with the bytes
  \<^verbatim>\<open>file.async('nodebuffer')\<close> resolves to, or a file whose read is rejected with an
  exception (a corrupted entry). An archive is the table \<^verbatim>\<open>files\<close> of a \<^verbatim>\<open>JSZip\<close>
  object, in the order \<^verbatim>\<open>Object.entries\<close> lists it.
\<close>

datatype zip_entry = Dir | File buffer | Unreadable exn

type_synonym archive = "(string \<times> zip_entry) list"

text \<open>
  The output archive is the list of the calls the handler makes on it,
  \<^verbatim>\<open>optimizedZip.folder(name)\<close> and \<^verbatim>\<open>optimizedZip.file(name, data)\<close>; \<open>zip_files\<close> below
  is the table these calls build. It follows \<^verbatim>\<open>lib/object.js\<close> of JSZip 3.10 (the
  version \<^verbatim>\<open>package.json\<close> asks for): a file or a folder first creates the folders
  above it (\<^verbatim>\<open>createFolders\<close> is on by default), a folder that exists is left as it is,
  and a file is assigned to its name, replacing what was there.
\<close>

datatype zip_call = Folder_call string | File_call string buffer

definition forceTrailingSlash :: "string \<Rightarrow> string" where
  "forceTrailingSlash path =
     (if path \<noteq> [] \<and> last path = CHR ''/'' then path else path @ ''/'')"

text \<open>
  \<^verbatim>\<open>parentFolder\<close>: without a final slash, the path up to its last slash, and the empty
  string when that slash is missing or is the first character.
\<close>

definition parentFolder :: "string \<Rightarrow> string" where
  "parentFolder path =
     (let p = (if path \<noteq> [] \<and> last path = CHR ''/'' then butlast path else path)
      in rev (tl (dropWhile (\<lambda>c. c \<noteq> CHR ''/'') (rev p))))"

lemma length_tl_dropWhile:
  "tl (dropWhile P xs) \<noteq> [] \<Longrightarrow> length (tl (dropWhile P xs)) < length xs"
proof -
  assume a: "tl (dropWhile P xs) \<noteq> []"
  have le: "length (dropWhile P xs) \<le> length xs" by (rule length_dropWhile_le)
  show ?thesis
  proof (cases "dropWhile P xs")
    case Nil
    with a show ?thesis by simp
  next
    case (Cons y ys)
    with le show ?thesis by simp
  qed
qed

lemma length_parentFolder:
  "parentFolder path \<noteq> [] \<Longrightarrow>
   length (parentFolder path)
     < length (if path \<noteq> [] \<and> last path = CHR ''/'' then butlast path else path)"
  using length_tl_dropWhile [of "\<lambda>c. c \<noteq> CHR ''/''"
      "rev (if path \<noteq> [] \<and> last path = CHR ''/'' then butlast path else path)"]
  by (simp add: parentFolder_def Let_def)

lemma parentFolder_forceTrailingSlash:
  "parentFolder (forceTrailingSlash name) \<noteq> [] \<Longrightarrow>
   length (parentFolder (forceTrailingSlash name)) < length name"
proof (cases "name \<noteq> [] \<and> last name = CHR ''/''")
  case True
  assume "parentFolder (forceTrailingSlash name) \<noteq> []"
  with True show ?thesis
    using length_parentFolder [of name] by (simp add: forceTrailingSlash_def)
next
  case False
  assume a: "parentFolder (forceTrailingSlash name) \<noteq> []"
  from False have eq: "forceTrailingSlash name = name @ ''/''"
    by (auto simp add: forceTrailingSlash_def)
  from a eq length_parentFolder [of "name @ ''/''"] show ?thesis
    by simp
qed

function folderAdd :: "string \<Rightarrow> archive \<Rightarrow> archive" where
  "folderAdd name files =
     (let name' = forceTrailingSlash name
      in if map_of files name' \<noteq> None then files
         else
           (let parent = parentFolder name';
                files' = (if parent \<noteq> [] then folderAdd parent files else files)
            in AList.update name' Dir files'))"
  by pat_completeness auto
termination
  by (relation "measure (\<lambda>(name, files). length name)")
     (auto simp add: parentFolder_forceTrailingSlash)

definition fileAdd :: "string \<Rightarrow> buffer \<Rightarrow> archive \<Rightarrow> archive" where
  "fileAdd name data files =
     (let parent = parentFolder name;
          files' = (if parent \<noteq> [] then folderAdd parent files else files)
      in AList.update name (File data) files')"

definition apply_call :: "zip_call \<Rightarrow> archive \<Rightarrow> archive" where
  "apply_call c files =
     (case c of
        Folder_call arg \<Rightarrow> if arg = [] then files else folderAdd arg files
      | File_call name data \<Rightarrow> fileAdd name data files)"

definition zip_files :: "zip_call list \<Rightarrow> archive" where
  "zip_files calls = fold apply_call calls []"

subsection \<open>String replacement and number formatting\<close>

text \<open>
  \<^verbatim>\<open>GetSubstitution\<close> for a match without capture groups: in the replacement text
  \<^verbatim>\<open>$$\<close> is a dollar sign, \<^verbatim>\<open>$&\<close> the matched text, \<^verbatim>\<open>$`\<close> the text before the
  match and \<^verbatim>\<open>$'\<close> the text after it; every other character stands for itself.
\<close>

fun getSubstitution :: "string \<Rightarrow> string \<Rightarrow> string \<Rightarrow> string \<Rightarrow> string" where
  "getSubstitution matched pre post [] = []"
| "getSubstitution matched pre post [c] = [c]"
| "getSubstitution matched pre post (c # d # rest) =
     (if c = CHR 0x24 \<and> d = CHR 0x24 then CHR 0x24 # getSubstitution matched pre post rest
      else if c = CHR 0x24 \<and> d = CHR ''&'' then matched @ getSubstitution matched pre post rest
      else if c = CHR 0x24 \<and> d = CHR 0x60 then pre @ getSubstitution matched pre post rest
      else if c = CHR 0x24 \<and> d = CHR 0x27 then post @ getSubstitution matched pre post rest
      else c # getSubstitution matched pre post (d # rest))"

text \<open>\<^verbatim>\<open>s.replace(/\.png$/i, template)\<close>: the pattern matches the last four characters.\<close>

definition replace_png_suffix :: "string \<Rightarrow> string \<Rightarrow> string" where
  "replace_png_suffix s template =
     (if test_suffix_i ''.png'' s then
        (let pre = take (length s - 4) s; matched = drop (length s - 4) s
         in pre @ getSubstitution matched pre [] template)
      else s)"

text \<open>
  The text before and after the first occurrence of \<open>pat\<close> in a string, if there is
  one.
\<close>

fun split_first :: "string \<Rightarrow> string \<Rightarrow> (string \<times> string) option" where
  "split_first pat [] = (if pat = [] then Some ([], []) else None)"
| "split_first pat (c # cs) =
     (if startsWith (c # cs) pat then Some ([], drop (length pat) (c # cs))
      else map_option (\<lambda>(pre, post). (c # pre, post)) (split_first pat cs))"

text \<open>
  \<^verbatim>\<open>s.replace(pat, template)\<close> for a string \<open>pat\<close>: the first occurrence of \<open>pat\<close> is
  replaced, and only that one.
\<close>

definition replace_str :: "string \<Rightarrow> string \<Rightarrow> string \<Rightarrow> string" where
  "replace_str s pat template =
     (case split_first pat s of
        None \<Rightarrow> s
      | Some (pre, post) \<Rightarrow> pre @ getSubstitution pat pre post template @ post)"

text \<open>
  The result of a division: a double, an infinity or \<^verbatim>\<open>NaN\<close>.
\<close>

datatype number = Finite rat | Infinity | Minus_Infinity | NaN

definition divide_num :: "rat \<Rightarrow> rat \<Rightarrow> number" where
  "divide_num a b =
     (if b = 0 then (if a = 0 then NaN else if 0 < a then Infinity else Minus_Infinity)
      else Finite (fl (a / b)))"

definition times_100 :: "number \<Rightarrow> number" where
  "times_100 x = (case x of Finite r \<Rightarrow> Finite (fl (r * 100)) | _ \<Rightarrow> x)"

function decimal :: "int \<Rightarrow> string" where
  "decimal n =
     (if n < 10 then [char_of (48 + n)]
      else decimal (n div 10) @ [char_of (48 + n mod 10)])"
  by pat_completeness auto
termination
  by (relation "measure nat") auto

text \<open>
  \<^verbatim>\<open>x.toFixed(2)\<close>: the integer \<open>n\<close> with \<open>n / 100\<close> nearest to \<open>\<bar>x\<bar>\<close> (the larger one
  of two), written with at least three digits and a point before the last two. From
  \<open>10^21\<close> on JavaScript switches to the exponent notation, which is not modelled: a
  byte count is below \<open>2^53\<close>, and no number the handler formats reaches \<open>10^21\<close>.
\<close>

definition toFixed2 :: "number \<Rightarrow> string" where
  "toFixed2 x =
     (case x of
        NaN \<Rightarrow> ''NaN''
      | Infinity \<Rightarrow> ''Infinity''
      | Minus_Infinity \<Rightarrow> ''-Infinity''
      | Finite r \<Rightarrow>
          (let n = \<lfloor>\<bar>r\<bar> * 100 + 1 / 2\<rfloor>;
               m = decimal n;
               m' = replicate (3 - length m) CHR ''0'' @ m
           in (if r < 0 then ''-'' else [])
              @ take (length m' - 2) m' @ ''.'' @ drop (length m' - 2) m'))"

subsection \<open>The handler (lines 163 to 344)\<close>

text \<open>
  The options read from the form fields, lines 196 to 200. The resolution and the quality
  are the integers \<^verbatim>\<open>parseInt\<close> gives for a field that holds a numeral (a field that
  holds none gives \<^verbatim>\<open>NaN\<close>, which this record does not have).
\<close>

record options =
  targetResolution :: int
  quality :: int
  format :: string
  aggressiveMode :: bool
  deviceMode :: string

record category =
  files :: nat
  saved :: int

record statistics =
  totalFiles :: nat
  imageFiles :: nat
  soundFiles :: nat
  optimizedImages :: nat
  skippedFiles :: nat
  criticalFiles :: nat
  hdTexturesFound :: nat
  originalSize :: nat
  optimizedSize :: nat
  modelengine :: category
  items :: category
  vanilla :: category
  sounds :: category

text \<open>The two objects the loop mutates: the output archive and the statistics.\<close>

record loop_state =
  optimizedZip :: "zip_call list"
  stats :: statistics

definition initial_state :: loop_state where
  "initial_state =
     \<lparr>optimizedZip = [],
      stats = \<lparr>totalFiles = 0, imageFiles = 0, soundFiles = 0, optimizedImages = 0,
               skippedFiles = 0, criticalFiles = 0, hdTexturesFound = 0,
               originalSize = 0, optimizedSize = 0,
               modelengine = \<lparr>files = 0, saved = 0\<rparr>,
               items = \<lparr>files = 0, saved = 0\<rparr>,
               vanilla = \<lparr>files = 0, saved = 0\<rparr>,
               sounds = \<lparr>files = 0, saved = 0\<rparr>\<rparr>\<rparr>"

text \<open>\<^verbatim>\<open>optimizedZip.file(name, data)\<close> and \<^verbatim>\<open>optimizedZip.folder(name)\<close>.\<close>

definition zip_file :: "string \<Rightarrow> buffer \<Rightarrow> loop_state \<Rightarrow> loop_state" where
  "zip_file name data st = st\<lparr>optimizedZip := optimizedZip st @ [File_call name data]\<rparr>"

definition zip_folder :: "string \<Rightarrow> loop_state \<Rightarrow> loop_state" where
  "zip_folder name st = st\<lparr>optimizedZip := optimizedZip st @ [Folder_call name]\<rparr>"

text \<open>Lines 272 to 277: the options given to the recompressor.\<close>

definition effective_options :: "options \<Rightarrow> rat \<Rightarrow> image_options" where
  "effective_options opts optimalRes =
     \<lparr>opt_targetResolution =
        (if deviceMode opts = ''potato'' then min optimalRes 256 else optimalRes),
      opt_quality = (if deviceMode opts = ''potato'' then quality opts - 10 else quality opts),
      opt_format = format opts,
      opt_aggressiveMode = (aggressiveMode opts \<or> deviceMode opts = ''potato'')\<rparr>"

text \<open>Lines 279 to 282: the name the image is written under.\<close>

definition new_filename :: "string \<Rightarrow> string \<Rightarrow> string" where
  "new_filename fmt filename =
     (if fmt \<noteq> ''png'' \<and> endsWith filename ''.png''
      then replace_png_suffix filename (''.'' @ fmt)
      else filename)"

text \<open>Lines 290 to 300: the bucket the savings of an image go to.\<close>

definition add_saved :: "int \<Rightarrow> category \<Rightarrow> category" where
  "add_saved n c = c\<lparr>files := files c + 1, saved := saved c + n\<rparr>"

definition categorize :: "string \<Rightarrow> int \<Rightarrow> statistics \<Rightarrow> statistics" where
  "categorize filename n s =
     (if includes_str filename ''modelengine'' then s\<lparr>modelengine := add_saved n (modelengine s)\<rparr>
      else if includes_str filename ''items'' \<or> includes_str filename ''weapons''
        then s\<lparr>items := add_saved n (items s)\<rparr>
      else if includes_str filename ''assets/minecraft'' then s\<lparr>vanilla := add_saved n (vanilla s)\<rparr>
      else s)"

text \<open>
  Lines 261 to 300, the body of the \<^verbatim>\<open>try\<close> of an image entry. \<open>Inl\<close> is an exception
  thrown in it. Only the read of the metadata can throw: \<^verbatim>\<open>optimizeImage\<close> catches
  what it throws, and the statements after it are assignments and a call of
  \<^verbatim>\<open>optimizedZip.file\<close>. So the state an exception leaves is the state the block
  started in.
\<close>

definition image_block :: "sharp \<Rightarrow> options \<Rightarrow> string \<Rightarrow> buffer \<Rightarrow> loop_state \<Rightarrow> exn + loop_state" where
  "image_block lib opts filename fileData st =
     (let priority = getFolderPriority filename;
          optimalRes = getOptimalResolution filename (targetResolution opts) priority
      in case sharp_metadata lib fileData of
           Inl e \<Rightarrow> Inl e
         | Inr metadata \<Rightarrow>
             (let hd_texture =
                    ((case width metadata of Some w \<Rightarrow> 512 \<le> w | None \<Rightarrow> False)
                     \<or> (case height metadata of Some h \<Rightarrow> 512 \<le> h | None \<Rightarrow> False));
                  st1 = (if hd_texture
                         then st\<lparr>stats := (stats st)\<lparr>hdTexturesFound := hdTexturesFound (stats st) + 1\<rparr>\<rparr>
                         else st);
                  optimized = optimizeImage lib fileData filename (effective_options opts optimalRes);
                  newFilename = new_filename (format opts) filename;
                  n = int (length fileData) - int (length optimized);
                  st2 = zip_file newFilename optimized st1;
                  s2 = stats st2;
                  s3 = s2\<lparr>optimizedSize := optimizedSize s2 + length optimized,
                          optimizedImages := optimizedImages s2 + 1\<rparr>
              in Inr (st2\<lparr>stats := categorize filename n s3\<rparr>)))"

text \<open>Lines 302 to 307, the \<^verbatim>\<open>catch\<close> of an image entry.\<close>

definition image_catch :: "string \<Rightarrow> buffer \<Rightarrow> loop_state \<Rightarrow> loop_state" where
  "image_catch filename fileData st =
     (let st1 = zip_file filename fileData st; s = stats st1
      in st1\<lparr>stats := s\<lparr>optimizedSize := optimizedSize s + length fileData,
                          skippedFiles := skippedFiles s + 1\<rparr>\<rparr>)"

text \<open>
  Lines 229 to 312: one round of the loop over the entries. When the read of line 235 is
  rejected the round ends there, after line 234, and the exception leaves the loop (see
  \<open>handler_loop\<close> below).
\<close>

definition process_entry :: "sharp \<Rightarrow> options \<Rightarrow> string \<times> zip_entry \<Rightarrow> loop_state \<Rightarrow> loop_state" where
  "process_entry lib opts entry st =
     (case entry of
        (filename, Dir) \<Rightarrow> zip_folder filename st
      | (filename, Unreadable e) \<Rightarrow>
          st\<lparr>stats := (stats st)\<lparr>totalFiles := totalFiles (stats st) + 1\<rparr>\<rparr>
      | (filename, File fileData) \<Rightarrow>
          (let s = stats st;
               st0 = st\<lparr>stats := s\<lparr>totalFiles := totalFiles s + 1,
                                    originalSize := originalSize s + length fileData\<rparr>\<rparr>;
               s0 = stats st0
           in if isCriticalFile filename then
                (zip_file filename fileData st0)
                  \<lparr>stats := s0\<lparr>optimizedSize := optimizedSize s0 + length fileData,
                                criticalFiles := criticalFiles s0 + 1\<rparr>\<rparr>
              else if isSoundFile filename then
                (zip_file filename fileData st0)
                  \<lparr>stats := s0\<lparr>optimizedSize := optimizedSize s0 + length fileData,
                                soundFiles := soundFiles s0 + 1,
                                sounds := (sounds s0)\<lparr>files := files (sounds s0) + 1\<rparr>\<rparr>\<rparr>
              else if isImageFile filename then
                (let st1 = st0\<lparr>stats := s0\<lparr>imageFiles := imageFiles s0 + 1\<rparr>\<rparr>
                 in case image_block lib opts filename fileData st1 of
                      Inr st2 \<Rightarrow> st2
                    | Inl e \<Rightarrow> image_catch filename fileData st1)
              else
                (zip_file filename fileData st0)
                  \<lparr>stats := s0\<lparr>optimizedSize := optimizedSize s0 + length fileData\<rparr>\<rparr>))"

text \<open>The rounds of the loop one after the other, for entries whose reads succeed.\<close>

definition process_entries :: "sharp \<Rightarrow> options \<Rightarrow> archive \<Rightarrow> loop_state \<Rightarrow> loop_state" where
  "process_entries lib opts entries st = fold (process_entry lib opts) entries st"

text \<open>
  Lines 228 to 313, the loop: the read of line 235 stands outside the \<^verbatim>\<open>try\<close> of the
  round, so a read that is rejected ends the loop, and the request, with its exception.
\<close>

fun handler_loop :: "sharp \<Rightarrow> options \<Rightarrow> archive \<Rightarrow> loop_state \<Rightarrow> exn + loop_state" where
  "handler_loop lib opts [] st = Inr st"
| "handler_loop lib opts ((filename, Unreadable e) # entries) st = Inl e"
| "handler_loop lib opts (entry # entries) st =
     handler_loop lib opts entries (process_entry lib opts entry st)"

text \<open>
  \<^verbatim>\<open>res.setHeader\<close> throws when the value holds a character a header must not hold: a
  control character other than the tabulator (and a code unit from 256 on, which no
  string of this model holds).
\<close>

definition invalid_header_char :: "char \<Rightarrow> bool" where
  "invalid_header_char c = (let n = (of_char c :: nat) in (n < 32 \<and> n \<noteq> 9) \<or> n = 127)"

text \<open>
  Lines 315 to 343: the archive is serialised and the response is built.
  \<open>generateAsync\<close> is the serialiser of the archive library, a parameter. When it
  throws, or when the header of line 340 is refused, the handler answers with the status
  500 (\<open>Inl\<close>). The other two headers hold no character that is refused.
\<close>

record response =
  body :: buffer
  content_disposition :: string
  x_stats :: statistics
  finalZipSize :: nat
  savedBytes :: int
  savedPercent :: string
  finalSizeMB :: string
  targetAchieved :: bool

definition output_name :: "string option \<Rightarrow> string \<Rightarrow> string" where
  "output_name originalFilename sizeMB =
     (let originalName = (case originalFilename of
                            None \<Rightarrow> ''pack.zip''
                          | Some n \<Rightarrow> if n = [] then ''pack.zip'' else n)
      in replace_str originalName ''.zip'' (''-optimized-'' @ sizeMB @ ''mb.zip''))"

definition finish :: "(archive \<Rightarrow> exn + buffer) \<Rightarrow> string option \<Rightarrow> loop_state \<Rightarrow> exn + response" where
  "finish generateAsync originalFilename st =
     (case generateAsync (zip_files (optimizedZip st)) of
        Inl e \<Rightarrow> Inl e
      | Inr optimizedBuffer \<Rightarrow>
          (let finalSize = length optimizedBuffer;
               bytes = int (originalSize (stats st)) - int finalSize;
               percent = toFixed2 (times_100 (divide_num (of_int bytes) (of_nat (originalSize (stats st)))));
               sizeMB = toFixed2 (Finite (fl (fl (of_nat finalSize / 1024) / 1024)));
               outputName = output_name originalFilename sizeMB;
               disposition = ''attachment; filename='' @ [CHR 0x22] @ outputName @ [CHR 0x22]
           in if list_ex invalid_header_char disposition
              then Inl (Error ''Invalid character in header content'')
              else Inr \<lparr>body = optimizedBuffer,
                        content_disposition = disposition,
                        x_stats = stats st,
                        finalZipSize = finalSize,
                        savedBytes = bytes,
                        savedPercent = percent,
                        finalSizeMB = sizeMB,
                        targetAchieved = (finalSize \<le> 13 * 1024 * 1024)\<rparr>))"

text \<open>The handler from the loaded archive on, lines 207 to 343.\<close>

definition handler :: "sharp \<Rightarrow> (archive \<Rightarrow> exn + buffer) \<Rightarrow> options \<Rightarrow> string option \<Rightarrow> archive \<Rightarrow> exn + response" where
  "handler lib generateAsync opts originalFilename entries =
     (case handler_loop lib opts entries initial_state of
        Inl e \<Rightarrow> Inl e
      | Inr st \<Rightarrow> finish generateAsync originalFilename st)"

text \<open>
  The class of a file name: the order of the tests at lines 240, 248 and 257.
\<close>

datatype file_class = Critical_class | Sound_class | Image_class | Other_class

definition classify :: "string \<Rightarrow> file_class" where
  "classify filename =
     (if isCriticalFile filename then Critical_class
      else if isSoundFile filename then Sound_class
      else if isImageFile filename then Image_class
      else Other_class)"

subsection \<open>Notions the properties are stated with\<close>

text \<open>The state at the start of the \<^verbatim>\<open>try\<close> of an image entry (lines 234 to 258).\<close>

definition image_entry_state :: "buffer \<Rightarrow> loop_state \<Rightarrow> loop_state" where
  "image_entry_state fileData st =
     st\<lparr>stats := (stats st)\<lparr>totalFiles := totalFiles (stats st) + 1,
                    originalSize := originalSize (stats st) + length fileData,
                    imageFiles := imageFiles (stats st) + 1\<rparr>\<rparr>"

text \<open>
  The bytes of an entry of the input, and the bytes a call writes to the output archive
  (a directory has none).
\<close>

fun entry_size :: "string \<times> zip_entry \<Rightarrow> nat" where
  "entry_size (name, Dir) = 0"
| "entry_size (name, File data) = length data"
| "entry_size (name, Unreadable e) = 0"

fun call_size :: "zip_call \<Rightarrow> nat" where
  "call_size (Folder_call name) = 0"
| "call_size (File_call name data) = length data"

definition archive_size :: "archive \<Rightarrow> nat" where
  "archive_size entries = sum_list (map entry_size entries)"

definition written_size :: "zip_call list \<Rightarrow> nat" where
  "written_size calls = sum_list (map call_size calls)"

text \<open>
  The calls a round of the loop makes for an entry: a directory is created; an image whose
  metadata is read is written, recompressed, under its new name; every other file that
  is read is written as it is under its own name; a file whose read is rejected is not
  written.
\<close>

definition entry_calls :: "sharp \<Rightarrow> options \<Rightarrow> string \<times> zip_entry \<Rightarrow> zip_call list" where
  "entry_calls lib opts entry =
     (case entry of
        (filename, Dir) \<Rightarrow> [Folder_call filename]
      | (filename, Unreadable e) \<Rightarrow> []
      | (filename, File fileData) \<Rightarrow>
          if classify filename = Image_class \<and> \<not> isl (sharp_metadata lib fileData)
          then [File_call (new_filename (format opts) filename)
                  (optimizeImage lib fileData filename
                     (effective_options opts
                        (getOptimalResolution filename (targetResolution opts)
                           (getFolderPriority filename))))]
          else [File_call filename fileData])"

text \<open>
  The table of the output archive when the loop is over: what the serialiser is given
  when no read is rejected.
\<close>

definition output_table :: "sharp \<Rightarrow> options \<Rightarrow> archive \<Rightarrow> archive" where
  "output_table lib opts entries =
     zip_files (optimizedZip (process_entries lib opts entries initial_state))"

text \<open>
  In the table of an archive that was loaded, the directories are the entries whose name
  has a final slash.
\<close>

definition well_formed :: "archive \<Rightarrow> bool" where
  "well_formed entries = list_all (\<lambda>(name, e). (e = Dir) = endsWith name ''/'') entries"

text \<open>
  A name with a final slash stands for a directory, as long as no file is written under
  such a name.
\<close>

definition slash_names_are_dirs :: "archive \<Rightarrow> bool" where
  "slash_names_are_dirs table =
     (\<forall>k e. map_of table k = Some e \<longrightarrow> endsWith k ''/'' \<longrightarrow> e = Dir)"

text \<open>No call writes a file under a name with a final slash.\<close>

fun file_name_ok :: "zip_call \<Rightarrow> bool" where
  "file_name_ok (Folder_call name) = True"
| "file_name_ok (File_call name data) = (\<not> endsWith name ''/'')"

subsection \<open>A small image library for the examples\<close>

text \<open>
  The first two bytes of a buffer are the width and the height in units of eight pixels;
  a shorter buffer is not an image. Encoding drops these two bytes.
\<close>

definition example_sharp :: sharp where
  "example_sharp =
     \<lparr>sharp_metadata = (\<lambda>b. case b of
          w # h # rest \<Rightarrow> Inr \<lparr>width = Some (8 * unat w), height = Some (8 * unat h)\<rparr>
        | _ \<Rightarrow> Inl (Error ''Input buffer contains unsupported image format'')),
      sharp_toBuffer = (\<lambda>p b. Inr (drop 2 b))\<rparr>"

definition example_options :: options where
  "example_options =
     \<lparr>targetResolution = 512, quality = 85, format = ''webp'', aggressiveMode = False,
      deviceMode = ''potato''\<rparr>"

definition example_png_options :: options where
  "example_png_options =
     \<lparr>targetResolution = 512, quality = 85, format = ''png'', aggressiveMode = False,
      deviceMode = ''potato''\<rparr>"

text \<open>
  A library that reads the metadata as \<open>example_sharp\<close> does and whose encoder writes
  down the pipeline it is given, in three bytes: the encoder (1 for the palette encoder
  of \<^verbatim>\<open>png\<close>, 2 for the adaptive one, 3 for \<^verbatim>\<open>webp\<close>, 4 for none), the quality given to
  it, and the width given to \<^verbatim>\<open>resize\<close> in units of eight pixels (0 without a call of
  \<^verbatim>\<open>resize\<close>).
\<close>

definition example_probe_sharp :: sharp where
  "example_probe_sharp =
     \<lparr>sharp_metadata = sharp_metadata example_sharp,
      sharp_toBuffer = (\<lambda>p b. Inr
        [case encoding p of Png_palette q \<Rightarrow> 1 | Png_adaptive q \<Rightarrow> 2 | Webp q \<Rightarrow> 3
           | Keep_format \<Rightarrow> 4,
         case encoding p of Png_palette q \<Rightarrow> word_of_int q | Png_adaptive q \<Rightarrow> word_of_int q
           | Webp q \<Rightarrow> word_of_int q | Keep_format \<Rightarrow> 0,
         case resize p of Some (w, h) \<Rightarrow> word_of_int \<lfloor>w / 8\<rfloor> | None \<Rightarrow> 0])\<rparr>"

text \<open>A library that reads the metadata as \<open>example_sharp\<close> does and whose encoder throws.\<close>

definition example_failing_sharp :: sharp where
  "example_failing_sharp =
     \<lparr>sharp_metadata = sharp_metadata example_sharp,
      sharp_toBuffer = (\<lambda>p b. Inl (Error ''Input file is missing or of an unsupported image format''))\<rparr>"

text \<open>A serialiser for the examples: every archive takes 200 bytes.\<close>

definition example_generateAsync :: "archive \<Rightarrow> exn + buffer" where
  "example_generateAsync table = Inr (replicate 200 0)"

section \<open>Properties\<close>

text \<open>The equations that evaluate the tests on a file name that is given.\<close>

lemmas string_tests = isCriticalFile_def isSoundFile_def isImageFile_def test_exact_i_def
  test_suffix_i_def test_contains_i_def endsWith_def canonicalize_def toLowerCase_def
  toLowerCase_char_def char_of_def bit_Suc_0_iff getFolderPriority_def character_keywords_def


subsection \<open>The recompressor\<close>

lemma optimizeImage_body_cases:
  "optimizeImage_body lib buffer filename options = Inr r \<Longrightarrow>
   r = buffer \<or> (\<exists>p. sharp_toBuffer lib p buffer = Inr r \<and> length r < length buffer)"
  by (auto simp add: optimizeImage_body_def Let_def
      split: if_splits sum.splits option.splits)

text \<open>
  C1. Whatever the buffer, the file name and the options are, the result of
  \<open>optimizeImage\<close> is not longer than the buffer. It is the buffer itself, or an encoded
  result that is strictly shorter. It is the buffer when the buffer is empty, when the
  metadata cannot be read or has no width or height, and when an exception is thrown.
\<close>

theorem optimizeImage_never_longer:
  "length (optimizeImage lib buffer filename options) \<le> length buffer
   \<and> (optimizeImage lib buffer filename options = buffer
      \<or> (\<exists>p optimized. sharp_toBuffer lib p buffer = Inr optimized
            \<and> length optimized < length buffer
            \<and> optimizeImage lib buffer filename options = optimized))
   \<and> (buffer = [] \<longrightarrow> optimizeImage lib buffer filename options = buffer)
   \<and> (\<forall>e. sharp_metadata lib buffer = Inl e \<longrightarrow>
          optimizeImage lib buffer filename options = buffer)
   \<and> (\<forall>m. sharp_metadata lib buffer = Inr m
          \<and> (width m = None \<or> width m = Some 0 \<or> height m = None \<or> height m = Some 0) \<longrightarrow>
          optimizeImage lib buffer filename options = buffer)
   \<and> (\<forall>e. optimizeImage_body lib buffer filename options = Inl e \<longrightarrow>
          optimizeImage lib buffer filename options = buffer)"
proof -
  let ?r = "optimizeImage lib buffer filename options"
  have shape: "?r = buffer
     \<or> (\<exists>p optimized. sharp_toBuffer lib p buffer = Inr optimized
           \<and> length optimized < length buffer \<and> ?r = optimized)"
  proof (cases "optimizeImage_body lib buffer filename options")
    case (Inl e)
    then show ?thesis by (simp add: optimizeImage_def)
  next
    case (Inr r)
    then have "?r = r" by (simp add: optimizeImage_def)
    with optimizeImage_body_cases [OF Inr] show ?thesis by auto
  qed
  then have len: "length ?r \<le> length buffer" by auto
  have empty: "buffer = [] \<longrightarrow> ?r = buffer"
    by (simp add: optimizeImage_def optimizeImage_body_def)
  have unreadable: "\<forall>e. sharp_metadata lib buffer = Inl e \<longrightarrow> ?r = buffer"
    by (auto simp add: optimizeImage_def optimizeImage_body_def)
  have invalid: "\<forall>m. sharp_metadata lib buffer = Inr m
          \<and> (width m = None \<or> width m = Some 0 \<or> height m = None \<or> height m = Some 0) \<longrightarrow>
          ?r = buffer"
    by (auto simp add: optimizeImage_def optimizeImage_body_def split: option.splits)
  have thrown: "\<forall>e. optimizeImage_body lib buffer filename options = Inl e \<longrightarrow> ?r = buffer"
    by (simp add: optimizeImage_def)
  from len shape empty unreadable invalid thrown show ?thesis by blast
qed

theorem optimizeImage_never_longer_witness:
  "optimizeImage example_sharp [10, 10, 1, 2, 3] ''a.png'' (effective_options example_options 256)
     = [1, 2, 3]
   \<and> length (optimizeImage example_sharp [10, 10, 1, 2, 3] ''a.png''
         (effective_options example_options 256)) \<le> 5
   \<and> optimizeImage example_sharp [] ''a.png'' (effective_options example_options 256) = []
   \<and> sharp_metadata example_sharp [7]
        = Inl (Error ''Input buffer contains unsupported image format'')
   \<and> optimizeImage example_sharp [7] ''a.png'' (effective_options example_options 256) = [7]
   \<and> sharp_metadata example_sharp [0, 80, 1] = Inr \<lparr>width = Some 0, height = Some 640\<rparr>
   \<and> optimizeImage example_sharp [0, 80, 1] ''a.png'' (effective_options example_options 256)
        = [0, 80, 1]"
proof -
  note t = optimizeImage_never_longer
    [of example_sharp _ "''a.png''" "effective_options example_options 256"]
  have a: "optimizeImage example_sharp [10, 10, 1, 2, 3] ''a.png''
      (effective_options example_options 256) = [1, 2, 3]"
    by (simp add: optimizeImage_def optimizeImage_body_def example_sharp_def)
  have b: "sharp_metadata example_sharp [7]
      = Inl (Error ''Input buffer contains unsupported image format'')"
    by (simp add: example_sharp_def)
  have c: "sharp_metadata example_sharp [0, 80, 1] = Inr \<lparr>width = Some 0, height = Some 640\<rparr>"
    by (simp add: example_sharp_def)
  from t [of "[10, 10, 1, 2, 3]"] a have 1: "length (optimizeImage example_sharp [10, 10, 1, 2, 3]
      ''a.png'' (effective_options example_options 256)) \<le> 5"
    by simp
  from t [of "[]"] have 2: "optimizeImage example_sharp [] ''a.png''
      (effective_options example_options 256) = []"
    by simp
  from t [of "[7]"] b have 3: "optimizeImage example_sharp [7] ''a.png''
      (effective_options example_options 256) = [7]"
    by blast
  from t [of "[0, 80, 1]"] c have 4: "optimizeImage example_sharp [0, 80, 1] ''a.png''
      (effective_options example_options 256) = [0, 80, 1]"
    by (metis image_metadata.select_convs(1))
  from a 1 2 b 3 c 4 show ?thesis by blast
qed


text \<open>
  C6. When the metadata is read and the width and the height are both at most 32, the
  buffer is returned as it is.
\<close>

theorem optimizeImage_small_unchanged:
  assumes "sharp_metadata lib buffer = Inr m"
    and "width m = Some w" and "height m = Some h"
    and "w \<le> 32" and "h \<le> 32"
  shows "optimizeImage lib buffer filename options = buffer"
  using assms by (simp add: optimizeImage_def optimizeImage_body_def)

theorem optimizeImage_small_unchanged_witness:
  "sharp_metadata example_sharp [4, 4, 9, 9, 9] = Inr \<lparr>width = Some 32, height = Some 32\<rparr>
   \<and> (32::nat) \<le> 32
   \<and> optimizeImage example_sharp [4, 4, 9, 9, 9] ''stone.png''
         (effective_options example_options 256) = [4, 4, 9, 9, 9]"
proof -
  have m: "sharp_metadata example_sharp [4, 4, 9, 9, 9] = Inr \<lparr>width = Some 32, height = Some 32\<rparr>"
    by (simp add: example_sharp_def)
  from optimizeImage_small_unchanged [OF m, of 32 32] m show ?thesis by simp
qed

subsection \<open>Rounding to a double\<close>

text \<open>
  The digits of a positive integer, the exponent of a rational number, and two facts on
  the rounding \<open>fl\<close>: half an integer below \<open>2^53\<close> in absolute value is a double, and
  rounding does not go below 512 from 512 on.
\<close>

lemma bit_length_bounds:
  "0 < n \<Longrightarrow> 1 \<le> bit_length n \<and> 2 ^ nat (bit_length n - 1) \<le> n \<and> n < 2 ^ nat (bit_length n)"
proof (induction n rule: bit_length.induct)
  case (1 n)
  show ?case
  proof (cases "n = 1")
    case True
    have "bit_length 1 = 1"
      by (simp add: bit_length.simps [of 1] bit_length.simps [of 0])
    with True show ?thesis by simp
  next
    case False
    with "1.prems" have m: "0 < n div 2" by simp
    from "1.prems" have nz: "\<not> n \<le> 0" by simp
    from "1.IH" [OF nz m] have b: "1 \<le> bit_length (n div 2)"
      and lo: "2 ^ nat (bit_length (n div 2) - 1) \<le> n div 2"
      and hi: "n div 2 < 2 ^ nat (bit_length (n div 2))"
      by simp_all
    from nz have eq: "bit_length n = 1 + bit_length (n div 2)"
      by (subst bit_length.simps) simp
    from b have s: "nat (bit_length (n div 2)) = Suc (nat (bit_length (n div 2) - 1))"
      by simp
    have "2 ^ nat (bit_length n - 1) \<le> n"
      using lo eq s by (simp; linarith)
    moreover have "n < 2 ^ nat (bit_length n)"
    proof -
      from b have "nat (bit_length n) = Suc (nat (bit_length (n div 2)))"
        using eq by simp
      moreover from hi have "n div 2 + 1 \<le> 2 ^ nat (bit_length (n div 2))" by simp
      ultimately show ?thesis by (simp; linarith)
    qed
    moreover from eq b have "1 \<le> bit_length n" by simp
    ultimately show ?thesis by simp
  qed
qed

lemma bit_length_powi:
  assumes "0 < n"
  shows "(2::rat) powi (bit_length n - 1) \<le> of_int n" and "of_int n < (2::rat) powi (bit_length n)"
proof -
  from bit_length_bounds [OF assms] have b: "1 \<le> bit_length n"
    and lo: "2 ^ nat (bit_length n - 1) \<le> n" and hi: "n < 2 ^ nat (bit_length n)"
    by simp_all
  from lo have "(of_int (2 ^ nat (bit_length n - 1)) :: rat) \<le> of_int n"
    by (simp only: of_int_le_iff)
  with b show "(2::rat) powi (bit_length n - 1) \<le> of_int n"
    by (simp add: power_int_def)
  from hi have "(of_int n :: rat) < of_int (2 ^ nat (bit_length n))"
    by (simp only: of_int_less_iff)
  with b show "of_int n < (2::rat) powi (bit_length n)"
    by (simp add: power_int_def)
qed

lemma binade_bounds:
  assumes "x \<noteq> 0"
  shows "(2::rat) powi (binade x) \<le> \<bar>x\<bar>" and "\<bar>x\<bar> < (2::rat) powi (binade x + 1)"
proof -
  obtain p q where pq: "quotient_of \<bar>x\<bar> = (p, q)" by (cases "quotient_of \<bar>x\<bar>")
  then have q: "0 < q" and x: "\<bar>x\<bar> = of_int p / of_int q"
    by (simp_all add: quotient_of_denom_pos quotient_of_div)
  from assms have "0 < \<bar>x\<bar>" by simp
  with x q have p: "0 < p"
    by (simp add: zero_less_divide_iff)
  let ?d = "bit_length p - bit_length q"
  note bp = bit_length_powi [OF p] and bq = bit_length_powi [OF q]
  have qr: "(0::rat) < of_int q" using q by simp
  have two: "(2::rat) \<noteq> 0" by simp
  have lo1: "(2::rat) powi (?d - 1) < \<bar>x\<bar>"
  proof -
    have "(2::rat) powi (?d - 1) = 2 powi (bit_length p - 1) / 2 powi (bit_length q)"
      by (simp add: power_int_diff [symmetric] algebra_simps)
    also have "\<dots> \<le> (of_int p :: rat) / 2 powi (bit_length q)"
      using bp(1) by (simp add: divide_right_mono)
    also have "\<dots> < of_int p / of_int q"
      using bq(2) p qr by (simp add: divide_strict_left_mono)
    finally show ?thesis by (simp add: x)
  qed
  have hi1: "\<bar>x\<bar> < (2::rat) powi (?d + 1)"
  proof -
    have "(of_int p :: rat) / of_int q < 2 powi (bit_length p) / of_int q"
      using bp(2) qr by (simp add: divide_strict_right_mono)
    also have "\<dots> \<le> 2 powi (bit_length p) / 2 powi (bit_length q - 1)"
      using bq(1) qr by (simp add: divide_left_mono)
    also have "\<dots> = 2 powi (?d + 1)"
      by (simp add: power_int_diff [symmetric] algebra_simps)
    finally show ?thesis by (simp add: x)
  qed
  show "(2::rat) powi (binade x) \<le> \<bar>x\<bar>"
  proof (cases "of_int q * (2::rat) powi ?d \<le> of_int p")
    case True
    then have "binade x = ?d" by (simp add: binade_def pq)
    moreover from True qr have "(2::rat) powi ?d \<le> (of_int p :: rat) / of_int q"
      by (simp add: pos_le_divide_eq mult.commute)
    ultimately show ?thesis by (simp add: x)
  next
    case False
    then have "binade x = ?d - 1" by (simp add: binade_def pq)
    with lo1 show ?thesis by simp
  qed
  show "\<bar>x\<bar> < (2::rat) powi (binade x + 1)"
  proof (cases "of_int q * (2::rat) powi ?d \<le> of_int p")
    case True
    then have "binade x = ?d" by (simp add: binade_def pq)
    with hi1 show ?thesis by simp
  next
    case False
    then have "binade x = ?d - 1" by (simp add: binade_def pq)
    moreover from False qr have "(of_int p :: rat) / of_int q < (2::rat) powi ?d"
      by (simp add: pos_divide_less_eq mult.commute not_le)
    ultimately show ?thesis by (simp add: x)
  qed
qed

lemma round_half_even_of_int: "round_half_even (of_int m) = m"
  by (simp add: round_half_even_def)

lemma round_half_even_ge_floor: "\<lfloor>m\<rfloor> \<le> round_half_even m"
  by (simp add: round_half_even_def Let_def)

lemma powi_less_cancel: "(2::rat) powi a < 2 powi b \<Longrightarrow> a < b"
  by (rule ccontr) (simp add: not_less power_int_increasing not_le [symmetric])

lemma fl_exact_half:
  assumes "\<bar>k\<bar> < 2 ^ 53"
  shows "fl (of_int k / 2) = of_int k / 2"
proof (cases "k = 0")
  case True
  then show ?thesis by (simp add: fl_def)
next
  case False
  let ?x = "of_int k / 2 :: rat"
  let ?e = "binade ?x"
  from False have nz: "?x \<noteq> 0" by simp
  have "\<bar>?x\<bar> < 2 powi 52"
  proof -
    from assms have "(of_int \<bar>k\<bar> :: rat) < of_int (2 ^ 53)"
      by (simp only: of_int_less_iff)
    then show ?thesis by (simp add: abs_if split: if_splits)
  qed
  with binade_bounds(1) [OF nz] have "(2::rat) powi ?e < 2 powi 52" by simp
  then have e: "?e < 52" by (rule powi_less_cancel)
  define n where "n = nat (51 - ?e)"
  with e have en: "?e - 52 = - int (Suc n)" by simp
  have ulp: "(2::rat) powi (?e - 52) = 1 / 2 ^ Suc n"
    unfolding en by (simp only: power_int_minus power_int_of_nat) (simp add: field_simps)
  have "?x / (2 powi (?e - 52)) = of_int (k * 2 ^ n)"
    unfolding ulp by simp
  then have "round_half_even (?x / (2 powi (?e - 52))) = k * 2 ^ n"
    by (simp only: round_half_even_of_int)
  with nz show ?thesis
    by (simp add: fl_def Let_def ulp)
qed

lemma fl_ge_512:
  assumes "512 \<le> x"
  shows "512 \<le> fl x"
proof -
  let ?e = "binade x"
  from assms have nz: "x \<noteq> 0" and ax: "\<bar>x\<bar> = x" by simp_all
  have "(2::rat) powi 9 \<le> x" using assms by simp
  also from binade_bounds(2) [OF nz] ax have "x < 2 powi (?e + 1)" by simp
  finally have "9 < ?e + 1" by (rule powi_less_cancel)
  then have e: "9 \<le> ?e" by simp
  let ?ulp = "(2::rat) powi (?e - 52)"
  have up: "0 < ?ulp" by simp
  have "(2::rat) powi 52 = 2 powi ?e / ?ulp"
    by (simp add: power_int_diff [symmetric])
  also have "\<dots> \<le> x / ?ulp"
    using binade_bounds(1) [OF nz] ax up by (simp add: divide_right_mono)
  finally have "(of_int (2 ^ 52) :: rat) \<le> x / ?ulp" by simp
  then have "2 ^ 52 \<le> \<lfloor>x / ?ulp\<rfloor>" by (simp only: le_floor_iff)
  then have "2 ^ 52 \<le> round_half_even (x / ?ulp)"
    using round_half_even_ge_floor [of "x / ?ulp"] by (rule order_trans)
  then have r: "(of_int (2 ^ 52) :: rat) \<le> of_int (round_half_even (x / ?ulp))"
    by (simp only: of_int_le_iff)
  have c: "(of_int (2 ^ 52) :: rat) * ?ulp \<le> of_int (round_half_even (x / ?ulp)) * ?ulp"
    by (rule mult_right_mono [OF r]) simp
  have "?ulp = 2 powi ?e / 2 powi 52" by (rule power_int_diff) simp
  then have b: "(of_int (2 ^ 52) :: rat) * ?ulp = 2 powi ?e" by simp
  have "(2::rat) powi 9 \<le> 2 powi ?e"
    using e by (intro power_int_increasing) simp_all
  then have a: "(512::rat) \<le> 2 powi ?e" by simp
  from a b c have "512 \<le> of_int (round_half_even (x / ?ulp)) * ?ulp"
    by linarith
  with nz show ?thesis by (simp add: fl_def Let_def)
qed

lemma low_tier_product:
  assumes "- (2 ^ 51) \<le> R"
  shows "min (fl (of_int R * (3 / 2))) 512 = min (of_int R * (3 / 2)) (512 :: rat)"
proof (cases "R \<le> 341")
  case True
  with assms have "\<bar>3 * R\<bar> < 2 ^ 53" by simp
  from fl_exact_half [OF this] have "fl (of_int R * (3 / 2)) = of_int R * (3 / 2)"
    by (simp add: algebra_simps)
  then show ?thesis by simp
next
  case False
  then have "342 \<le> R" by simp
  then have "(of_int 342 :: rat) \<le> of_int R" by (simp only: of_int_le_iff)
  then have x: "(512 :: rat) \<le> of_int R * (3 / 2)" by simp
  from fl_ge_512 [OF x] x show ?thesis by simp
qed

subsection \<open>The resolution of a tier\<close>

text \<open>
  C5. The resolution derived from the tier, for every base resolution \<open>R\<close> from \<open>- 2^51\<close>
  on (the resolutions of a request are positive): tier high gives \<open>min R 256\<close>, tier
  medium gives \<open>R\<close>, tier low gives \<open>min (R * 1.5) 512\<close>, where the product of the source
  is a double: it is exact as long as it is below 512, and from there on the minimum
  is 512. So 512 becomes 256 at tier high and 256 becomes 384 at tier low.
\<close>

theorem getOptimalResolution_tiers:
  assumes "- (2 ^ 51) \<le> R"
  shows "getOptimalResolution filename R High = min (of_int R) 256
   \<and> getOptimalResolution filename R Medium = of_int R
   \<and> getOptimalResolution filename R Low = min (of_int R * (3 / 2)) 512
   \<and> getOptimalResolution filename 512 High = 256
   \<and> getOptimalResolution filename 256 Low = 384
   \<and> getOptimalResolution filename 256 Medium = 256"
proof -
  have "getOptimalResolution filename R Low = min (of_int R * (3 / 2)) 512"
    using low_tier_product [OF assms] by (simp add: getOptimalResolution_def)
  moreover have "getOptimalResolution filename 256 Low = 384"
    using low_tier_product [of 256] by (simp add: getOptimalResolution_def)
  ultimately show ?thesis by (simp add: getOptimalResolution_def)
qed

theorem getOptimalResolution_tiers_witness:
  "getFolderPriority ''assets/modelengine/mob/dragon.png'' = High
   \<and> getOptimalResolution ''assets/modelengine/mob/dragon.png'' 512
        (getFolderPriority ''assets/modelengine/mob/dragon.png'') = 256
   \<and> getFolderPriority ''assets/minecraft/textures/block/stone.png'' = Low
   \<and> getOptimalResolution ''assets/minecraft/textures/block/stone.png'' 256
        (getFolderPriority ''assets/minecraft/textures/block/stone.png'') = 384
   \<and> getOptimalResolution ''assets/minecraft/textures/block/stone.png'' 255
        (getFolderPriority ''assets/minecraft/textures/block/stone.png'') = 765 / 2
   \<and> getOptimalResolution ''assets/minecraft/textures/block/stone.png'' 4096
        (getFolderPriority ''assets/minecraft/textures/block/stone.png'') = 512
   \<and> getFolderPriority ''gui/button.png'' = Medium
   \<and> getOptimalResolution ''gui/button.png'' 1024 (getFolderPriority ''gui/button.png'') = 1024"
proof -
  have h: "getFolderPriority ''assets/modelengine/mob/dragon.png'' = High"
    by (simp add: string_tests)
  have l: "getFolderPriority ''assets/minecraft/textures/block/stone.png'' = Low"
    by (simp add: string_tests)
  have m: "getFolderPriority ''gui/button.png'' = Medium"
    by (simp add: string_tests)
  have r: "- (2 ^ 51) \<le> (512 :: int)" "- (2 ^ 51) \<le> (256 :: int)" "- (2 ^ 51) \<le> (255 :: int)"
    "- (2 ^ 51) \<le> (4096 :: int)" "- (2 ^ 51) \<le> (1024 :: int)"
    by simp_all
  from getOptimalResolution_tiers [OF r(1), of "''assets/modelengine/mob/dragon.png''"]
    getOptimalResolution_tiers [OF r(2), of "''assets/minecraft/textures/block/stone.png''"]
    getOptimalResolution_tiers [OF r(3), of "''assets/minecraft/textures/block/stone.png''"]
    getOptimalResolution_tiers [OF r(4), of "''assets/minecraft/textures/block/stone.png''"]
    getOptimalResolution_tiers [OF r(5), of "''gui/button.png''"]
    h l m
  show ?thesis by simp
qed

subsection \<open>The rounds of the loop\<close>

lemma image_block_Inl:
  "image_block lib opts filename fileData st = Inl e \<longleftrightarrow> sharp_metadata lib fileData = Inl e"
  by (simp add: image_block_def Let_def split: sum.splits)

lemma image_block_calls:
  assumes "image_block lib opts filename fileData st = Inr st'"
  shows "optimizedZip st' = optimizedZip st @
           [File_call (new_filename (format opts) filename)
              (optimizeImage lib fileData filename
                 (effective_options opts
                    (getOptimalResolution filename (targetResolution opts)
                       (getFolderPriority filename))))]"
  using assms
  by (auto simp add: image_block_def Let_def zip_file_def split: sum.splits if_splits)

lemma categorize_counters:
  "totalFiles (categorize f n s) = totalFiles s"
  "imageFiles (categorize f n s) = imageFiles s"
  "soundFiles (categorize f n s) = soundFiles s"
  "optimizedImages (categorize f n s) = optimizedImages s"
  "skippedFiles (categorize f n s) = skippedFiles s"
  "criticalFiles (categorize f n s) = criticalFiles s"
  "hdTexturesFound (categorize f n s) = hdTexturesFound s"
  "originalSize (categorize f n s) = originalSize s"
  "optimizedSize (categorize f n s) = optimizedSize s"
  "sounds (categorize f n s) = sounds s"
  by (simp_all add: categorize_def)

lemma image_block_stats:
  assumes "image_block lib opts filename fileData st = Inr st'"
  shows "totalFiles (stats st') = totalFiles (stats st)"
    and "imageFiles (stats st') = imageFiles (stats st)"
    and "soundFiles (stats st') = soundFiles (stats st)"
    and "criticalFiles (stats st') = criticalFiles (stats st)"
    and "skippedFiles (stats st') = skippedFiles (stats st)"
    and "originalSize (stats st') = originalSize (stats st)"
    and "optimizedImages (stats st') = optimizedImages (stats st) + 1"
    and "optimizedSize (stats st') = optimizedSize (stats st) +
           length (optimizeImage lib fileData filename
             (effective_options opts
                (getOptimalResolution filename (targetResolution opts)
                   (getFolderPriority filename))))"
  using assms
  by (auto simp add: image_block_def Let_def zip_file_def categorize_counters
      split: sum.splits if_splits)

lemma process_entry_Dir:
  "process_entry lib opts (filename, Dir) st = zip_folder filename st"
  by (simp add: process_entry_def)

lemma process_entry_Unreadable:
  "process_entry lib opts (filename, Unreadable e) st =
     st\<lparr>stats := (stats st)\<lparr>totalFiles := totalFiles (stats st) + 1\<rparr>\<rparr>"
  by (simp add: process_entry_def)

lemma process_entry_Critical:
  assumes "classify filename = Critical_class"
  shows "process_entry lib opts (filename, File fileData) st =
     \<lparr>optimizedZip = optimizedZip st @ [File_call filename fileData],
      stats = (stats st)\<lparr>totalFiles := totalFiles (stats st) + 1,
                originalSize := originalSize (stats st) + length fileData,
                optimizedSize := optimizedSize (stats st) + length fileData,
                criticalFiles := criticalFiles (stats st) + 1\<rparr>\<rparr>"
  using assms
  by (simp add: process_entry_def classify_def zip_file_def Let_def split: if_splits)

lemma process_entry_Sound:
  assumes "classify filename = Sound_class"
  shows "process_entry lib opts (filename, File fileData) st =
     \<lparr>optimizedZip = optimizedZip st @ [File_call filename fileData],
      stats = (stats st)\<lparr>totalFiles := totalFiles (stats st) + 1,
                originalSize := originalSize (stats st) + length fileData,
                optimizedSize := optimizedSize (stats st) + length fileData,
                soundFiles := soundFiles (stats st) + 1,
                sounds := (sounds (stats st))\<lparr>files := files (sounds (stats st)) + 1\<rparr>\<rparr>\<rparr>"
  using assms
  by (simp add: process_entry_def classify_def zip_file_def Let_def split: if_splits)

lemma process_entry_Other:
  assumes "classify filename = Other_class"
  shows "process_entry lib opts (filename, File fileData) st =
     \<lparr>optimizedZip = optimizedZip st @ [File_call filename fileData],
      stats = (stats st)\<lparr>totalFiles := totalFiles (stats st) + 1,
                originalSize := originalSize (stats st) + length fileData,
                optimizedSize := optimizedSize (stats st) + length fileData\<rparr>\<rparr>"
  using assms
  by (simp add: process_entry_def classify_def zip_file_def Let_def split: if_splits)

lemma process_entry_Image:
  assumes "classify filename = Image_class"
  shows "process_entry lib opts (filename, File fileData) st =
     (case image_block lib opts filename fileData (image_entry_state fileData st) of
        Inr st' \<Rightarrow> st'
      | Inl e \<Rightarrow> image_catch filename fileData (image_entry_state fileData st))"
  using assms unfolding image_entry_state_def
  by (simp add: process_entry_def classify_def Let_def split: if_splits cong: sum.case_cong)

lemma process_entry_class_counters:
  "criticalFiles (stats (process_entry lib opts (filename, File fileData) st))
     = criticalFiles (stats st) + (if classify filename = Critical_class then 1 else 0)"
  "soundFiles (stats (process_entry lib opts (filename, File fileData) st))
     = soundFiles (stats st) + (if classify filename = Sound_class then 1 else 0)"
  "imageFiles (stats (process_entry lib opts (filename, File fileData) st))
     = imageFiles (stats st) + (if classify filename = Image_class then 1 else 0)"
  "totalFiles (stats (process_entry lib opts (filename, File fileData) st))
     = totalFiles (stats st) + 1"
proof -
  let ?st = "process_entry lib opts (filename, File fileData) st"
  have "criticalFiles (stats ?st)
      = criticalFiles (stats st) + (if classify filename = Critical_class then 1 else 0)
    \<and> soundFiles (stats ?st)
      = soundFiles (stats st) + (if classify filename = Sound_class then 1 else 0)
    \<and> imageFiles (stats ?st)
      = imageFiles (stats st) + (if classify filename = Image_class then 1 else 0)
    \<and> totalFiles (stats ?st) = totalFiles (stats st) + 1"
  proof (cases "classify filename")
    case Critical_class
    then show ?thesis by (simp add: process_entry_Critical)
  next
    case Sound_class
    then show ?thesis by (simp add: process_entry_Sound)
  next
    case Other_class
    then show ?thesis by (simp add: process_entry_Other)
  next
    case Image_class
    show ?thesis
    proof (cases "image_block lib opts filename fileData (image_entry_state fileData st)")
      case (Inl e)
      with Image_class show ?thesis
        by (simp add: process_entry_Image image_catch_def zip_file_def image_entry_state_def Let_def)
    next
      case (Inr st')
      with Image_class image_block_stats [OF Inr] show ?thesis
        by (simp add: process_entry_Image image_entry_state_def)
    qed
  qed
  then show
    "criticalFiles (stats ?st)
      = criticalFiles (stats st) + (if classify filename = Critical_class then 1 else 0)"
    "soundFiles (stats ?st)
      = soundFiles (stats st) + (if classify filename = Sound_class then 1 else 0)"
    "imageFiles (stats ?st)
      = imageFiles (stats st) + (if classify filename = Image_class then 1 else 0)"
    "totalFiles (stats ?st) = totalFiles (stats st) + 1"
    by simp_all
qed

lemma image_block_Inr:
  assumes "sharp_metadata lib fileData = Inr m"
  shows "\<exists>st'. image_block lib opts filename fileData st = Inr st'"
  using assms by (simp add: image_block_def Let_def)

lemma process_entry_readable_image:
  assumes "classify filename = Image_class"
    and "sharp_metadata lib fileData = Inr m"
  shows "optimizedZip (process_entry lib opts (filename, File fileData) st) =
           optimizedZip st @
             [File_call (new_filename (format opts) filename)
                (optimizeImage lib fileData filename
                   (effective_options opts
                      (getOptimalResolution filename (targetResolution opts)
                         (getFolderPriority filename))))]"
    and "skippedFiles (stats (process_entry lib opts (filename, File fileData) st))
           = skippedFiles (stats st)"
    and "optimizedImages (stats (process_entry lib opts (filename, File fileData) st))
           = optimizedImages (stats st) + 1"
proof -
  from image_block_Inr [OF assms(2)] obtain st'
    where b: "image_block lib opts filename fileData (image_entry_state fileData st) = Inr st'"
    by blast
  from assms(1) b have p: "process_entry lib opts (filename, File fileData) st = st'"
    by (simp add: process_entry_Image)
  from image_block_calls [OF b]
  show "optimizedZip (process_entry lib opts (filename, File fileData) st) =
           optimizedZip st @
             [File_call (new_filename (format opts) filename)
                (optimizeImage lib fileData filename
                   (effective_options opts
                      (getOptimalResolution filename (targetResolution opts)
                         (getFolderPriority filename))))]"
    by (simp add: p image_entry_state_def)
  from image_block_stats(5) [OF b]
  show "skippedFiles (stats (process_entry lib opts (filename, File fileData) st))
           = skippedFiles (stats st)"
    by (simp add: p image_entry_state_def)
  from image_block_stats(7) [OF b]
  show "optimizedImages (stats (process_entry lib opts (filename, File fileData) st))
           = optimizedImages (stats st) + 1"
    by (simp add: p image_entry_state_def)
qed

lemma process_entry_unreadable_image:
  assumes "classify filename = Image_class"
    and "sharp_metadata lib fileData = Inl e"
  shows "process_entry lib opts (filename, File fileData) st =
      \<lparr>optimizedZip = optimizedZip st @ [File_call filename fileData],
       stats = (stats st)\<lparr>totalFiles := totalFiles (stats st) + 1,
                 originalSize := originalSize (stats st) + length fileData,
                 imageFiles := imageFiles (stats st) + 1,
                 optimizedSize := optimizedSize (stats st) + length fileData,
                 skippedFiles := skippedFiles (stats st) + 1\<rparr>\<rparr>"
proof -
  from assms(2)
  have "image_block lib opts filename fileData (image_entry_state fileData st) = Inl e"
    by (simp add: image_block_Inl)
  with assms(1) show ?thesis
    by (simp add: process_entry_Image image_catch_def zip_file_def image_entry_state_def Let_def)
qed

text \<open>The loop ends without an exception only in the state the rounds lead to.\<close>

lemma handler_loop_Inr:
  "handler_loop lib opts entries st = Inr st' \<Longrightarrow> st' = process_entries lib opts entries st"
  by (induction lib opts entries st rule: handler_loop.induct)
    (simp_all add: process_entries_def)

lemma handler_Inr:
  assumes "handler lib generateAsync opts originalFilename entries = Inr r"
  shows "finish generateAsync originalFilename (process_entries lib opts entries initial_state)
           = Inr r"
proof (cases "handler_loop lib opts entries initial_state")
  case (Inl e)
  with assms show ?thesis by (simp add: handler_def)
next
  case (Inr st')
  with assms handler_loop_Inr [OF Inr] show ?thesis by (simp add: handler_def)
qed

subsection \<open>Device mode\<close>

text \<open>
  C3. In the device mode \<^verbatim>\<open>potato\<close> the options given to the recompressor have the
  aggressive mode on, whatever the flag of the request is, the quality of the request
  minus 10, and as target resolution the smaller one of 256 and the resolution derived
  from the priority, so at most 256. These are the options the image written to the
  archive is made with: an entry that is an image whose metadata is read is written as
  the recompressor returns it for these options. The quality and the resolution of the
  request are integers here, as \<^verbatim>\<open>parseInt\<close> gives them for the numerals the fields
  \<^verbatim>\<open>quality\<close> and \<^verbatim>\<open>resolution\<close> are to hold; for a field that is no numeral
  \<^verbatim>\<open>parseInt\<close> gives \<^verbatim>\<open>NaN\<close>, which is outside of this statement.
\<close>

theorem potato_mode_options:
  assumes "deviceMode opts = ''potato''"
  shows "opt_aggressiveMode (effective_options opts r) = True
     \<and> opt_quality (effective_options opts r) = quality opts - 10
     \<and> opt_targetResolution (effective_options opts r) = min r 256
     \<and> opt_targetResolution (effective_options opts r) \<le> 256
     \<and> (\<forall>m. classify filename = Image_class \<and> sharp_metadata lib fileData = Inr m \<longrightarrow>
           optimizedZip (process_entry lib opts (filename, File fileData) st) =
             optimizedZip st @
               [File_call (new_filename (format opts) filename)
                  (optimizeImage lib fileData filename
                     \<lparr>opt_targetResolution =
                        min (getOptimalResolution filename (targetResolution opts)
                               (getFolderPriority filename)) 256,
                      opt_quality = quality opts - 10,
                      opt_format = format opts,
                      opt_aggressiveMode = True\<rparr>)])"
proof -
  have eff: "effective_options opts x =
      \<lparr>opt_targetResolution = min x 256, opt_quality = quality opts - 10,
       opt_format = format opts, opt_aggressiveMode = True\<rparr>" for x
    using assms by (simp add: effective_options_def)
  have "optimizedZip (process_entry lib opts (filename, File fileData) st) =
      optimizedZip st @
        [File_call (new_filename (format opts) filename)
           (optimizeImage lib fileData filename
              (effective_options opts
                 (getOptimalResolution filename (targetResolution opts)
                    (getFolderPriority filename))))]"
    if "classify filename = Image_class" and "sharp_metadata lib fileData = Inr m" for m
    using that by (rule process_entry_readable_image(1))
  then show ?thesis by (simp add: eff)
qed

theorem potato_mode_options_witness:
  "deviceMode example_png_options = ''potato''
   \<and> aggressiveMode example_png_options = False
   \<and> effective_options example_png_options 512 =
        \<lparr>opt_targetResolution = 256, opt_quality = 75, opt_format = ''png'',
         opt_aggressiveMode = True\<rparr>
   \<and> effective_options example_png_options 128 =
        \<lparr>opt_targetResolution = 128, opt_quality = 75, opt_format = ''png'',
         opt_aggressiveMode = True\<rparr>
   \<and> classify ''gui/big.png'' = Image_class
   \<and> sharp_metadata example_probe_sharp [128, 128, 0, 0, 0, 0]
        = Inr \<lparr>width = Some 1024, height = Some 1024\<rparr>
   \<and> optimizedZip (process_entry example_probe_sharp example_png_options
        (''gui/big.png'', File [128, 128, 0, 0, 0, 0]) initial_state)
        = [File_call ''gui/big.png'' [1, 70, 32]]"
proof -
  have p: "deviceMode example_png_options = ''potato''"
    by (simp add: example_png_options_def)
  have q: "quality example_png_options = 85" "format example_png_options = ''png''"
    "aggressiveMode example_png_options = False" "targetResolution example_png_options = 512"
    by (simp_all add: example_png_options_def)
  have f: "opt_format (effective_options example_png_options r) = ''png''" for r
    by (simp add: effective_options_def example_png_options_def)
  have eq: "x = \<lparr>opt_targetResolution = opt_targetResolution x, opt_quality = opt_quality x,
      opt_format = opt_format x, opt_aggressiveMode = opt_aggressiveMode x\<rparr>"
    for x :: image_options
    by simp
  have c: "classify ''gui/big.png'' = Image_class"
    by (simp add: classify_def string_tests)
  have m: "sharp_metadata example_probe_sharp [128, 128, 0, 0, 0, 0]
        = Inr \<lparr>width = Some 1024, height = Some 1024\<rparr>"
    by (simp add: example_probe_sharp_def example_sharp_def)
  have g: "getFolderPriority ''gui/big.png'' = Medium"
    by (simp add: string_tests)
  have "fl 1 = 1"
    using fl_exact_half [of 2] by simp
  then have n: "new_size 256 1024 1024 = (256, 256)"
    by (simp add: new_size_def)
  have o: "optimizeImage example_probe_sharp [128, 128, 0, 0, 0, 0] ''gui/big.png''
      \<lparr>opt_targetResolution = 256, opt_quality = 75, opt_format = ''png'',
       opt_aggressiveMode = True\<rparr> = [1, 70, 32]"
    by (simp add: optimizeImage_def optimizeImage_body_def m n choose_encoder_def)
      (simp add: example_probe_sharp_def)
  have w: "new_filename ''png'' ''gui/big.png'' = ''gui/big.png''"
    by (simp add: new_filename_def)
  have i: "optimizedZip initial_state = []"
    by (simp add: initial_state_def)
  note t = potato_mode_options [OF p, of _ "''gui/big.png''" example_probe_sharp
    "[128, 128, 0, 0, 0, 0]" initial_state]
  from t [of 512] c m q g o w i
  have z: "optimizedZip (process_entry example_probe_sharp example_png_options
        (''gui/big.png'', File [128, 128, 0, 0, 0, 0]) initial_state)
        = [File_call ''gui/big.png'' [1, 70, 32]]"
    by (simp add: getOptimalResolution_def)
  from t [of 512] t [of 128] p q f [of 512] f [of 128]
    eq [of "effective_options example_png_options 512"]
    eq [of "effective_options example_png_options 128"]
  have e: "effective_options example_png_options 512 =
        \<lparr>opt_targetResolution = 256, opt_quality = 75, opt_format = ''png'',
         opt_aggressiveMode = True\<rparr>"
    "effective_options example_png_options 128 =
        \<lparr>opt_targetResolution = 128, opt_quality = 75, opt_format = ''png'',
         opt_aggressiveMode = True\<rparr>"
    by simp_all
  from p q(3) e c m z show ?thesis by blast
qed

subsection \<open>Classification\<close>

text \<open>
  C4. The class of a file name is a function of the name alone. Every name has exactly
  one class, and the tests are made in a fixed order: a name that matches a critical
  pattern is critical, whatever its extension is; otherwise a name with a sound
  extension is a sound; otherwise a name with an image extension is an image; otherwise
  it is of the class other. The loop counts every file in the counter of its class and
  in no other.
\<close>

theorem classify_precedence:
  "(classify filename = Critical_class \<longleftrightarrow> isCriticalFile filename)
   \<and> (classify filename = Sound_class \<longleftrightarrow> \<not> isCriticalFile filename \<and> isSoundFile filename)
   \<and> (classify filename = Image_class \<longleftrightarrow>
        \<not> isCriticalFile filename \<and> \<not> isSoundFile filename \<and> isImageFile filename)
   \<and> (classify filename = Other_class \<longleftrightarrow>
        \<not> isCriticalFile filename \<and> \<not> isSoundFile filename \<and> \<not> isImageFile filename)
   \<and> criticalFiles (stats (process_entry lib opts (filename, File fileData) st))
        = criticalFiles (stats st) + (if classify filename = Critical_class then 1 else 0)
   \<and> soundFiles (stats (process_entry lib opts (filename, File fileData) st))
        = soundFiles (stats st) + (if classify filename = Sound_class then 1 else 0)
   \<and> imageFiles (stats (process_entry lib opts (filename, File fileData) st))
        = imageFiles (stats st) + (if classify filename = Image_class then 1 else 0)"
proof -
  have "(classify filename = Critical_class \<longleftrightarrow> isCriticalFile filename)
   \<and> (classify filename = Sound_class \<longleftrightarrow> \<not> isCriticalFile filename \<and> isSoundFile filename)
   \<and> (classify filename = Image_class \<longleftrightarrow>
        \<not> isCriticalFile filename \<and> \<not> isSoundFile filename \<and> isImageFile filename)
   \<and> (classify filename = Other_class \<longleftrightarrow>
        \<not> isCriticalFile filename \<and> \<not> isSoundFile filename \<and> \<not> isImageFile filename)"
    by (simp add: classify_def)
  with process_entry_class_counters [of lib opts filename fileData st]
  show ?thesis by simp
qed

theorem classify_precedence_witness:
  "isCriticalFile ''pack.png'' \<and> isImageFile ''pack.png'' \<and> classify ''pack.png'' = Critical_class
   \<and> isCriticalFile ''Font/click.ogg'' \<and> isSoundFile ''Font/click.ogg''
   \<and> classify ''Font/click.ogg'' = Critical_class
   \<and> classify ''sounds/click.OGG'' = Sound_class
   \<and> classify ''textures/stone.Png'' = Image_class
   \<and> classify ''README.md'' = Other_class
   \<and> criticalFiles (stats (process_entry example_sharp example_options
        (''pack.png'', File [1, 2, 3]) initial_state)) = 1
   \<and> imageFiles (stats (process_entry example_sharp example_options
        (''pack.png'', File [1, 2, 3]) initial_state)) = 0"
proof -
  have a: "isCriticalFile ''pack.png''" "isImageFile ''pack.png''"
    by (simp_all add: string_tests)
  have b: "isCriticalFile ''Font/click.ogg''" "isSoundFile ''Font/click.ogg''"
    by (simp_all add: string_tests)
  have c: "\<not> isCriticalFile ''sounds/click.OGG''" "isSoundFile ''sounds/click.OGG''"
    by (simp_all add: string_tests)
  have d: "\<not> isCriticalFile ''textures/stone.Png''" "\<not> isSoundFile ''textures/stone.Png''"
    "isImageFile ''textures/stone.Png''"
    by (simp_all add: string_tests)
  have e: "\<not> isCriticalFile ''README.md''" "\<not> isSoundFile ''README.md''"
    "\<not> isImageFile ''README.md''"
    by (simp_all add: string_tests)
  have i: "criticalFiles (stats initial_state) = 0" "imageFiles (stats initial_state) = 0"
    by (simp_all add: initial_state_def)
  from classify_precedence [of "''pack.png''" example_sharp example_options "[1, 2, 3]" initial_state]
    classify_precedence [of "''Font/click.ogg''" example_sharp example_options "[]" initial_state]
    classify_precedence [of "''sounds/click.OGG''" example_sharp example_options "[]" initial_state]
    classify_precedence [of "''textures/stone.Png''" example_sharp example_options "[]" initial_state]
    classify_precedence [of "''README.md''" example_sharp example_options "[]" initial_state]
    a b c d e i
  show ?thesis by simp
qed

subsection \<open>Buckets and priority\<close>

text \<open>
  C10, as the code has it. The priority is computed from the lower-cased path and the
  bucket from the path as it is. When the path holds none of \<^verbatim>\<open>modelengine\<close>,
  \<^verbatim>\<open>items\<close>, \<^verbatim>\<open>weapons\<close> and \<^verbatim>\<open>assets/minecraft\<close> in exactly this case, the savings
  of the image go to no bucket; when in addition its lower-cased form holds
  \<^verbatim>\<open>modelengine\<close>, the priority is high all the same. Two paths with the same
  lower-cased form have the same priority.
\<close>

theorem bucket_attribution_case_sensitive:
  assumes "\<not> includes_str filename ''modelengine''"
    and "\<not> includes_str filename ''items''"
    and "\<not> includes_str filename ''weapons''"
    and "\<not> includes_str filename ''assets/minecraft''"
  shows "categorize filename n s = s
     \<and> (\<forall>st'. image_block lib opts filename fileData st = Inr st' \<longrightarrow>
           modelengine (stats st') = modelengine (stats st)
           \<and> items (stats st') = items (stats st)
           \<and> vanilla (stats st') = vanilla (stats st)
           \<and> sounds (stats st') = sounds (stats st))
     \<and> (includes_str (toLowerCase filename) ''modelengine'' \<longrightarrow>
           getFolderPriority filename = High)
     \<and> (\<forall>g. toLowerCase g = toLowerCase filename \<longrightarrow>
           getFolderPriority g = getFolderPriority filename)"
proof -
  have c: "categorize filename k x = x" for k x
    using assms by (simp add: categorize_def)
  have b: "modelengine (stats st') = modelengine (stats st)
           \<and> items (stats st') = items (stats st)
           \<and> vanilla (stats st') = vanilla (stats st)
           \<and> sounds (stats st') = sounds (stats st)"
    if "image_block lib opts filename fileData st = Inr st'" for st'
    using that
    by (auto simp add: image_block_def Let_def zip_file_def c split: sum.splits if_splits)
  have h: "includes_str (toLowerCase filename) ''modelengine'' \<longrightarrow>
           getFolderPriority filename = High"
    by (simp add: getFolderPriority_def)
  have i: "\<forall>g. toLowerCase g = toLowerCase filename \<longrightarrow>
           getFolderPriority g = getFolderPriority filename"
    by (simp add: getFolderPriority_def)
  from c b h i show ?thesis by blast
qed

theorem bucket_attribution_case_sensitive_witness:
  "\<not> includes_str ''ModelEngine/mob.png'' ''modelengine''
   \<and> \<not> includes_str ''ModelEngine/mob.png'' ''items''
   \<and> \<not> includes_str ''ModelEngine/mob.png'' ''weapons''
   \<and> \<not> includes_str ''ModelEngine/mob.png'' ''assets/minecraft''
   \<and> includes_str (toLowerCase ''ModelEngine/mob.png'') ''modelengine''
   \<and> getFolderPriority ''ModelEngine/mob.png'' = High
   \<and> categorize ''ModelEngine/mob.png'' 7 (stats initial_state) = stats initial_state
   \<and> getFolderPriority ''MODELENGINE/MOB.PNG'' = High"
proof -
  have n: "\<not> includes_str ''ModelEngine/mob.png'' ''modelengine''"
    "\<not> includes_str ''ModelEngine/mob.png'' ''items''"
    "\<not> includes_str ''ModelEngine/mob.png'' ''weapons''"
    "\<not> includes_str ''ModelEngine/mob.png'' ''assets/minecraft''"
    by simp_all
  have l: "toLowerCase ''ModelEngine/mob.png'' = ''modelengine/mob.png''"
    "toLowerCase ''MODELENGINE/MOB.PNG'' = ''modelengine/mob.png''"
    by (simp_all add: string_tests)
  have i: "includes_str ''modelengine/mob.png'' ''modelengine''"
    by simp
  note t = bucket_attribution_case_sensitive
    [OF n, of _ _ example_sharp example_options "[]" initial_state]
  from t [of 7 "stats initial_state"]
  have c: "categorize ''ModelEngine/mob.png'' 7 (stats initial_state) = stats initial_state"
    by (rule conjunct1)
  from t [of 7 "stats initial_state", THEN conjunct2, THEN conjunct2, THEN conjunct1] l i
  have h: "getFolderPriority ''ModelEngine/mob.png'' = High"
    by simp
  from t [of 7 "stats initial_state", THEN conjunct2, THEN conjunct2, THEN conjunct2,
      THEN spec, of "''MODELENGINE/MOB.PNG''"] l h
  have u: "getFolderPriority ''MODELENGINE/MOB.PNG'' = High"
    by simp
  from l i have i': "includes_str (toLowerCase ''ModelEngine/mob.png'') ''modelengine''"
    by simp
  from n i' h c u show ?thesis by blast
qed

text \<open>
  The claim as it is written fails on a path that holds one key word in another case and
  another key word in lower case: the savings go to the bucket of the second. And a path
  that holds \<^verbatim>\<open>items\<close> in another case only has the priority medium, not high.
\<close>

theorem bucket_attribution_counterexample:
  "includes_str (toLowerCase ''ModelEngine/items/mob.png'') ''modelengine''
   \<and> \<not> includes_str ''ModelEngine/items/mob.png'' ''modelengine''
   \<and> getFolderPriority ''ModelEngine/items/mob.png'' = High
   \<and> items (categorize ''ModelEngine/items/mob.png'' 5 (stats initial_state))
        = \<lparr>files = 1, saved = 5\<rparr>
   \<and> includes_str (toLowerCase ''Items/sword.png'') ''items''
   \<and> \<not> includes_str ''Items/sword.png'' ''items''
   \<and> getFolderPriority ''Items/sword.png'' = Medium"
  by (simp add: string_tests categorize_def add_saved_def initial_state_def)

subsection \<open>One image that fails\<close>

text \<open>The equations that evaluate the loop on an archive that is given.\<close>

lemmas loop_eval = process_entries_def process_entry_def image_block_def image_catch_def
  zip_file_def zip_folder_def example_sharp_def example_options_def initial_state_def
  new_filename_def replace_png_suffix_def optimizeImage_def optimizeImage_body_def
  effective_options_def getOptimalResolution_def categorize_def add_saved_def
  choose_encoder_def image_entry_state_def classify_def Let_def

text \<open>
  C2, as the code has it. Two exceptions can be thrown while an image entry is
  processed, and they end in two places.
  \<^item> The read of the metadata at line 265 throws: this is the only exception that reaches
    the \<^verbatim>\<open>catch\<close> of the entry (lines 302 to 307). The bytes of the entry are written
    to the output archive under its name, as they are, \<open>skippedFiles\<close> grows by exactly
    one and \<open>optimizedImages\<close> does not grow.
  \<^item> The recompressor throws (the buffer is empty, its own read of the metadata, the
    resize or the encoder fails): its own \<^verbatim>\<open>catch\<close> (lines 100 to 103) returns the
    bytes of the entry, and the block goes on as after a recompression. The bytes of the
    entry are written as they are, under the name with the new extension where the name
    is changed; \<open>optimizedImages\<close> grows by one and \<open>skippedFiles\<close> does not grow.

  In both cases the loop goes on with the entries that follow. (The loop ends early, and
  the request with it, only when the read of an entry at line 235 is rejected.)
\<close>

theorem image_exception_isolated:
  assumes "classify filename = Image_class"
  shows "(\<forall>e. image_block lib opts filename fileData (image_entry_state fileData st) = Inl e
              \<longleftrightarrow> sharp_metadata lib fileData = Inl e)
     \<and> (\<forall>e. sharp_metadata lib fileData = Inl e \<longrightarrow>
           process_entry lib opts (filename, File fileData) st =
             \<lparr>optimizedZip = optimizedZip st @ [File_call filename fileData],
              stats = (stats st)\<lparr>totalFiles := totalFiles (stats st) + 1,
                        originalSize := originalSize (stats st) + length fileData,
                        imageFiles := imageFiles (stats st) + 1,
                        optimizedSize := optimizedSize (stats st) + length fileData,
                        skippedFiles := skippedFiles (stats st) + 1\<rparr>\<rparr>
           \<and> skippedFiles (stats (process_entry lib opts (filename, File fileData) st))
               = skippedFiles (stats st) + 1
           \<and> optimizedImages (stats (process_entry lib opts (filename, File fileData) st))
               = optimizedImages (stats st))
     \<and> (\<forall>m e. sharp_metadata lib fileData = Inr m
             \<and> optimizeImage_body lib fileData filename
                 (effective_options opts
                    (getOptimalResolution filename (targetResolution opts)
                       (getFolderPriority filename))) = Inl e \<longrightarrow>
           optimizedZip (process_entry lib opts (filename, File fileData) st)
               = optimizedZip st @ [File_call (new_filename (format opts) filename) fileData]
           \<and> skippedFiles (stats (process_entry lib opts (filename, File fileData) st))
               = skippedFiles (stats st)
           \<and> optimizedImages (stats (process_entry lib opts (filename, File fileData) st))
               = optimizedImages (stats st) + 1)
     \<and> handler_loop lib opts ((filename, File fileData) # rest) st
         = handler_loop lib opts rest (process_entry lib opts (filename, File fileData) st)"
proof -
  have reaches: "image_block lib opts filename fileData (image_entry_state fileData st) = Inl e
      \<longleftrightarrow> sharp_metadata lib fileData = Inl e" for e
    by (rule image_block_Inl)
  have caught: "process_entry lib opts (filename, File fileData) st =
             \<lparr>optimizedZip = optimizedZip st @ [File_call filename fileData],
              stats = (stats st)\<lparr>totalFiles := totalFiles (stats st) + 1,
                        originalSize := originalSize (stats st) + length fileData,
                        imageFiles := imageFiles (stats st) + 1,
                        optimizedSize := optimizedSize (stats st) + length fileData,
                        skippedFiles := skippedFiles (stats st) + 1\<rparr>\<rparr>
           \<and> skippedFiles (stats (process_entry lib opts (filename, File fileData) st))
               = skippedFiles (stats st) + 1
           \<and> optimizedImages (stats (process_entry lib opts (filename, File fileData) st))
               = optimizedImages (stats st)"
    if "sharp_metadata lib fileData = Inl e" for e
    by (simp add: process_entry_unreadable_image [OF assms that])
  have swallowed: "optimizedZip (process_entry lib opts (filename, File fileData) st)
               = optimizedZip st @ [File_call (new_filename (format opts) filename) fileData]
           \<and> skippedFiles (stats (process_entry lib opts (filename, File fileData) st))
               = skippedFiles (stats st)
           \<and> optimizedImages (stats (process_entry lib opts (filename, File fileData) st))
               = optimizedImages (stats st) + 1"
    if m: "sharp_metadata lib fileData = Inr m"
      and b: "optimizeImage_body lib fileData filename
                 (effective_options opts
                    (getOptimalResolution filename (targetResolution opts)
                       (getFolderPriority filename))) = Inl e" for m e
  proof -
    from b have "optimizeImage lib fileData filename
                 (effective_options opts
                    (getOptimalResolution filename (targetResolution opts)
                       (getFolderPriority filename))) = fileData"
      by (simp add: optimizeImage_def)
    with process_entry_readable_image [OF assms m, of opts st] show ?thesis
      by simp
  qed
  have continues: "handler_loop lib opts ((filename, File fileData) # rest) st
         = handler_loop lib opts rest (process_entry lib opts (filename, File fileData) st)"
    by simp
  from reaches caught swallowed continues show ?thesis by blast
qed

theorem image_exception_isolated_witness:
  "classify ''mobs/broken.png'' = Image_class
   \<and> sharp_metadata example_sharp [1]
        = Inl (Error ''Input buffer contains unsupported image format'')
   \<and> optimizedZip (process_entry example_sharp example_options
        (''mobs/broken.png'', File [1]) initial_state) = [File_call ''mobs/broken.png'' [1]]
   \<and> skippedFiles (stats (process_entry example_sharp example_options
        (''mobs/broken.png'', File [1]) initial_state)) = 1
   \<and> optimizedImages (stats (process_entry example_sharp example_options
        (''mobs/broken.png'', File [1]) initial_state)) = 0
   \<and> map_sum id optimizedZip (handler_loop example_sharp example_options
        [(''mobs/broken.png'', File [1]), (''notes.md'', File [2, 3])] initial_state)
        = Inr [File_call ''mobs/broken.png'' [1], File_call ''notes.md'' [2, 3]]
   \<and> sharp_metadata example_failing_sharp [64, 64, 9]
        = Inr \<lparr>width = Some 512, height = Some 512\<rparr>
   \<and> optimizeImage_body example_failing_sharp [64, 64, 9] ''mobs/broken.png''
        (effective_options example_png_options
           (getOptimalResolution ''mobs/broken.png'' (targetResolution example_png_options)
              (getFolderPriority ''mobs/broken.png'')))
        = Inl (Error ''Input file is missing or of an unsupported image format'')
   \<and> optimizedZip (process_entry example_failing_sharp example_png_options
        (''mobs/broken.png'', File [64, 64, 9]) initial_state)
        = [File_call ''mobs/broken.png'' [64, 64, 9]]
   \<and> skippedFiles (stats (process_entry example_failing_sharp example_png_options
        (''mobs/broken.png'', File [64, 64, 9]) initial_state)) = 0
   \<and> optimizedImages (stats (process_entry example_failing_sharp example_png_options
        (''mobs/broken.png'', File [64, 64, 9]) initial_state)) = 1"
proof -
  have c: "classify ''mobs/broken.png'' = Image_class"
    by (simp add: classify_def string_tests)
  have u: "sharp_metadata example_sharp [1]
        = Inl (Error ''Input buffer contains unsupported image format'')"
    by (simp add: example_sharp_def)
  have i: "optimizedZip initial_state = []" "skippedFiles (stats initial_state) = 0"
    "optimizedImages (stats initial_state) = 0"
    by (simp_all add: initial_state_def)
  note t = image_exception_isolated [OF c, where lib = example_sharp and fileData = "[1]"
      and opts = example_options and st = initial_state and rest = "[(''notes.md'', File [2, 3])]"]
  from t u i have 1: "optimizedZip (process_entry example_sharp example_options
        (''mobs/broken.png'', File [1]) initial_state) = [File_call ''mobs/broken.png'' [1]]"
    by simp
  from t u i have 2: "skippedFiles (stats (process_entry example_sharp example_options
        (''mobs/broken.png'', File [1]) initial_state)) = 1"
    by simp
  from t u i have 3: "optimizedImages (stats (process_entry example_sharp example_options
        (''mobs/broken.png'', File [1]) initial_state)) = 0"
    by simp
  have o: "classify ''notes.md'' = Other_class"
    by (simp add: classify_def string_tests)
  from t have "handler_loop example_sharp example_options
        [(''mobs/broken.png'', File [1]), (''notes.md'', File [2, 3])] initial_state
      = handler_loop example_sharp example_options [(''notes.md'', File [2, 3])]
          (process_entry example_sharp example_options (''mobs/broken.png'', File [1])
             initial_state)"
    by blast
  with 1 have 4: "map_sum id optimizedZip (handler_loop example_sharp example_options
        [(''mobs/broken.png'', File [1]), (''notes.md'', File [2, 3])] initial_state)
        = Inr [File_call ''mobs/broken.png'' [1], File_call ''notes.md'' [2, 3]]"
    by (simp add: process_entry_Other [OF o])
  have r: "sharp_metadata example_failing_sharp [64, 64, 9]
        = Inr \<lparr>width = Some 512, height = Some 512\<rparr>"
    by (simp add: example_failing_sharp_def example_sharp_def)
  have b: "optimizeImage_body example_failing_sharp [64, 64, 9] ''mobs/broken.png''
        (effective_options example_png_options
           (getOptimalResolution ''mobs/broken.png'' (targetResolution example_png_options)
              (getFolderPriority ''mobs/broken.png'')))
        = Inl (Error ''Input file is missing or of an unsupported image format'')"
    by (simp add: optimizeImage_body_def r Let_def) (simp add: example_failing_sharp_def)
  have n: "new_filename (format example_png_options) ''mobs/broken.png'' = ''mobs/broken.png''"
    by (simp add: new_filename_def example_png_options_def)
  note s = image_exception_isolated [OF c, where lib = example_failing_sharp
      and fileData = "[64, 64, 9]" and opts = example_png_options and st = initial_state
      and rest = "[]"]
  from s r b n i have 5: "optimizedZip (process_entry example_failing_sharp example_png_options
        (''mobs/broken.png'', File [64, 64, 9]) initial_state)
        = [File_call ''mobs/broken.png'' [64, 64, 9]]"
    by simp
  from s r b i have 6: "skippedFiles (stats (process_entry example_failing_sharp
        example_png_options (''mobs/broken.png'', File [64, 64, 9]) initial_state)) = 0"
    by simp
  from s r b i have 7: "optimizedImages (stats (process_entry example_failing_sharp
        example_png_options (''mobs/broken.png'', File [64, 64, 9]) initial_state)) = 1"
    by simp
  from c u 1 2 3 4 r b 5 6 7 show ?thesis by blast
qed

text \<open>
  The claim as it is written fails for an exception of the encoder: the image
  \<^verbatim>\<open>mobs/a.png\<close> is read, the encoder throws, and the recompressor returns the bytes it
  was given. The round ends as after a recompression: \<open>skippedFiles\<close> stays 0,
  \<open>optimizedImages\<close> is 1, and the bytes of the entry are in the output archive under
  the name \<^verbatim>\<open>mobs/a.webp\<close>.
\<close>

theorem image_exception_counterexample:
  "classify ''mobs/a.png'' = Image_class
   \<and> optimizeImage_body example_failing_sharp [128, 128, 1, 2, 3] ''mobs/a.png''
        (effective_options example_options
           (getOptimalResolution ''mobs/a.png'' (targetResolution example_options)
              (getFolderPriority ''mobs/a.png'')))
        = Inl (Error ''Input file is missing or of an unsupported image format'')
   \<and> skippedFiles (stats (process_entry example_failing_sharp example_options
        (''mobs/a.png'', File [128, 128, 1, 2, 3]) initial_state)) = 0
   \<and> optimizedImages (stats (process_entry example_failing_sharp example_options
        (''mobs/a.png'', File [128, 128, 1, 2, 3]) initial_state)) = 1
   \<and> optimizedZip (process_entry example_failing_sharp example_options
        (''mobs/a.png'', File [128, 128, 1, 2, 3]) initial_state)
        = [File_call ''mobs/a.webp'' [128, 128, 1, 2, 3]]"
proof -
  have r: "sharp_metadata example_failing_sharp [128, 128, 1, 2, 3]
        = Inr \<lparr>width = Some 1024, height = Some 1024\<rparr>"
    by (simp add: example_failing_sharp_def example_sharp_def)
  have b: "optimizeImage_body example_failing_sharp [128, 128, 1, 2, 3] ''mobs/a.png'' options
        = Inl (Error ''Input file is missing or of an unsupported image format'')" for options
    by (simp add: optimizeImage_body_def r Let_def) (simp add: example_failing_sharp_def)
  have c: "isImageFile ''mobs/a.png''" "\<not> isCriticalFile ''mobs/a.png''"
    "\<not> isSoundFile ''mobs/a.png''" "endsWith ''mobs/a.png'' ''.png''"
    "test_suffix_i ''.png'' ''mobs/a.png''"
    "\<not> includes_str ''mobs/a.png'' ''modelengine''" "\<not> includes_str ''mobs/a.png'' ''items''"
    "\<not> includes_str ''mobs/a.png'' ''weapons''"
    "\<not> includes_str ''mobs/a.png'' ''assets/minecraft''"
    by (simp_all add: string_tests)
  have p: "process_entry example_failing_sharp example_options
        (''mobs/a.png'', File [128, 128, 1, 2, 3]) initial_state
      = \<lparr>optimizedZip = [File_call ''mobs/a.webp'' [128, 128, 1, 2, 3]],
         stats = (stats initial_state)\<lparr>totalFiles := 1, originalSize := 5, imageFiles := 1,
                   hdTexturesFound := 1, optimizedSize := 5, optimizedImages := 1\<rparr>\<rparr>"
    by (simp add: process_entry_def image_block_def r c b optimizeImage_def zip_file_def
        new_filename_def replace_png_suffix_def categorize_def example_options_def
        initial_state_def Let_def)
  have i: "skippedFiles (stats initial_state) = 0"
    by (simp add: initial_state_def)
  from c b show ?thesis
    by (simp add: p classify_def i)
qed

subsection \<open>Statistics\<close>

lemma written_size_append:
  "written_size (calls @ [c]) = written_size calls + call_size c"
  by (simp add: written_size_def)

lemma process_entry_sizes:
  "originalSize (stats (process_entry lib opts entry st))
     = originalSize (stats st) + entry_size entry
   \<and> optimizedSize (stats (process_entry lib opts entry st)) + written_size (optimizedZip st)
     = optimizedSize (stats st) + written_size (optimizedZip (process_entry lib opts entry st))"
proof (cases entry)
  case (Pair filename z)
  show ?thesis
  proof (cases z)
    case Dir
    with Pair show ?thesis
      by (simp add: process_entry_Dir zip_folder_def written_size_append)
  next
    case (Unreadable e)
    with Pair show ?thesis
      by (simp add: process_entry_Unreadable)
  next
    case (File fileData)
    show ?thesis
    proof (cases "classify filename")
      case Critical_class
      with Pair File show ?thesis by (simp add: process_entry_Critical written_size_append)
    next
      case Sound_class
      with Pair File show ?thesis by (simp add: process_entry_Sound written_size_append)
    next
      case Other_class
      with Pair File show ?thesis by (simp add: process_entry_Other written_size_append)
    next
      case Image_class
      show ?thesis
      proof (cases "image_block lib opts filename fileData (image_entry_state fileData st)")
        case (Inl e)
        with Pair File Image_class show ?thesis
          by (simp add: process_entry_Image image_catch_def zip_file_def image_entry_state_def
              written_size_append
              Let_def)
      next
        case (Inr st')
        with Pair File Image_class image_block_stats [OF Inr] image_block_calls [OF Inr]
        show ?thesis
          by (simp add: process_entry_Image image_entry_state_def written_size_append)
      qed
    qed
  qed
qed

lemma process_entries_sizes:
  "originalSize (stats (process_entries lib opts entries st))
     = originalSize (stats st) + archive_size entries
   \<and> optimizedSize (stats (process_entries lib opts entries st)) + written_size (optimizedZip st)
     = optimizedSize (stats st) + written_size (optimizedZip (process_entries lib opts entries st))"
proof (induction entries arbitrary: st)
  case Nil
  show ?case by (simp add: process_entries_def archive_size_def)
next
  case (Cons entry entries)
  have unfold: "process_entries lib opts (entry # entries) st
      = process_entries lib opts entries (process_entry lib opts entry st)"
    by (simp add: process_entries_def)
  from Cons.IH [of "process_entry lib opts entry st"] process_entry_sizes [of lib opts entry st]
  show ?case
    unfolding unfold by (simp add: archive_size_def)
qed

lemma finish_Inr:
  assumes "finish generateAsync originalFilename st = Inr r"
  shows "generateAsync (zip_files (optimizedZip st)) = Inr (body r)"
    and "x_stats r = stats st"
    and "finalZipSize r = length (body r)"
    and "savedBytes r = int (originalSize (stats st)) - int (length (body r))"
    and "savedPercent r =
           toFixed2 (times_100 (divide_num
             (of_int (int (originalSize (stats st)) - int (length (body r))))
             (of_nat (originalSize (stats st)))))"
  using assms
  by (auto simp add: finish_def Let_def split: sum.splits if_splits)

lemma finish_succeeds:
  assumes "generateAsync (zip_files (optimizedZip st)) = Inr b"
    and "toFixed2 (Finite (fl (fl (of_nat (length b) / 1024) / 1024))) = sizeMB"
    and "\<not> list_ex invalid_header_char (output_name originalFilename sizeMB)"
  shows "finish generateAsync originalFilename st =
     Inr \<lparr>body = b,
          content_disposition =
            ''attachment; filename='' @ [CHR 0x22] @ output_name originalFilename sizeMB
              @ [CHR 0x22],
          x_stats = stats st,
          finalZipSize = length b,
          savedBytes = int (originalSize (stats st)) - int (length b),
          savedPercent =
            toFixed2 (times_100 (divide_num
              (of_int (int (originalSize (stats st)) - int (length b)))
              (of_nat (originalSize (stats st))))),
          finalSizeMB = sizeMB,
          targetAchieved = (length b \<le> 13 * 1024 * 1024)\<rparr>"
  using assms
  by (simp add: finish_def Let_def invalid_header_char_def list_ex_iff)

text \<open>
  C8, as the code has it. After the loop \<open>originalSize\<close> is the sum of the lengths of
  the files of the input, and \<open>optimizedSize\<close> is the sum of the lengths of the buffers
  written to the output archive. In the response \<open>finalZipSize\<close> is the length of the
  serialised archive, \<open>savedBytes\<close> is \<open>originalSize - finalZipSize\<close>, and
  \<open>savedPercent\<close> is the text \<^verbatim>\<open>toFixed(2)\<close> gives for
  \<open>savedBytes / originalSize * 100\<close> computed on doubles: the quotient rounded to two
  decimals, and \<^verbatim>\<open>-Infinity\<close> or \<^verbatim>\<open>NaN\<close> when \<open>originalSize\<close> is zero.
\<close>

theorem statistics_consistent:
  "originalSize (stats (process_entries lib opts entries initial_state)) = archive_size entries
   \<and> optimizedSize (stats (process_entries lib opts entries initial_state))
       = written_size (optimizedZip (process_entries lib opts entries initial_state))
   \<and> (\<forall>r. handler lib generateAsync opts originalFilename entries = Inr r \<longrightarrow>
         originalSize (x_stats r) = archive_size entries
         \<and> optimizedSize (x_stats r)
             = written_size (optimizedZip (process_entries lib opts entries initial_state))
         \<and> generateAsync (zip_files (optimizedZip (process_entries lib opts entries initial_state)))
             = Inr (body r)
         \<and> finalZipSize r = length (body r)
         \<and> savedBytes r = int (archive_size entries) - int (finalZipSize r)
         \<and> savedPercent r =
             toFixed2 (times_100 (divide_num (of_int (savedBytes r))
                                             (of_nat (archive_size entries))))
         \<and> (archive_size entries = 0 \<longrightarrow>
               savedPercent r = (if finalZipSize r = 0 then ''NaN'' else ''-Infinity'')))"
proof -
  let ?st = "process_entries lib opts entries initial_state"
  from process_entries_sizes [of lib opts entries initial_state]
  have o: "originalSize (stats ?st) = archive_size entries"
    and w: "optimizedSize (stats ?st) = written_size (optimizedZip ?st)"
    by (simp_all add: initial_state_def written_size_def)
  have "originalSize (x_stats r) = archive_size entries
         \<and> optimizedSize (x_stats r) = written_size (optimizedZip ?st)
         \<and> generateAsync (zip_files (optimizedZip ?st)) = Inr (body r)
         \<and> finalZipSize r = length (body r)
         \<and> savedBytes r = int (archive_size entries) - int (finalZipSize r)
         \<and> savedPercent r =
             toFixed2 (times_100 (divide_num (of_int (savedBytes r))
                                             (of_nat (archive_size entries))))
         \<and> (archive_size entries = 0 \<longrightarrow>
               savedPercent r = (if finalZipSize r = 0 then ''NaN'' else ''-Infinity''))"
    if h: "handler lib generateAsync opts originalFilename entries = Inr r" for r
  proof -
    from h have f: "finish generateAsync originalFilename ?st = Inr r"
      by (rule handler_Inr)
    note fs = finish_Inr [OF f]
    have p: "savedPercent r =
             toFixed2 (times_100 (divide_num (of_int (savedBytes r))
                                             (of_nat (archive_size entries))))"
      using fs o by simp
    have z: "archive_size entries = 0 \<longrightarrow>
               savedPercent r = (if finalZipSize r = 0 then ''NaN'' else ''-Infinity'')"
      using fs o by (simp add: divide_num_def times_100_def toFixed2_def)
    from fs o w p z show ?thesis by simp
  qed
  with o w show ?thesis by blast
qed

theorem statistics_consistent_witness:
  "archive_size [(''a/'', Dir), (''a/x.png'', File [64, 64, 1, 2]), (''notes.md'', File [5, 6, 7])] = 7
   \<and> originalSize (stats (process_entries example_sharp example_options
        [(''a/'', Dir), (''a/x.png'', File [64, 64, 1, 2]), (''notes.md'', File [5, 6, 7])]
        initial_state)) = 7
   \<and> optimizedZip (process_entries example_sharp example_options
        [(''a/'', Dir), (''a/x.png'', File [64, 64, 1, 2]), (''notes.md'', File [5, 6, 7])]
        initial_state)
       = [Folder_call ''a/'', File_call ''a/x.webp'' [1, 2], File_call ''notes.md'' [5, 6, 7]]
   \<and> optimizedSize (stats (process_entries example_sharp example_options
        [(''a/'', Dir), (''a/x.png'', File [64, 64, 1, 2]), (''notes.md'', File [5, 6, 7])]
        initial_state)) = 5
   \<and> finalZipSize (projr (handler example_sharp example_generateAsync example_options
        (Some ''pack.zip'')
        [(''a/'', Dir), (''a/x.png'', File [64, 64, 1, 2]), (''notes.md'', File [5, 6, 7])])) = 200
   \<and> savedBytes (projr (handler example_sharp example_generateAsync example_options
        (Some ''pack.zip'')
        [(''a/'', Dir), (''a/x.png'', File [64, 64, 1, 2]), (''notes.md'', File [5, 6, 7])])) = - 193
   \<and> savedPercent (projr (handler example_sharp example_generateAsync example_options
        (Some ''pack.zip'')
        [(''a/'', Dir), (''a/x.png'', File [64, 64, 1, 2]), (''notes.md'', File [5, 6, 7])]))
       = ''-2757.14''"
proof -
  let ?es = "[(''a/'', Dir), (''a/x.png'', File [64, 64, 1, 2]), (''notes.md'', File [5, 6, 7])]"
  let ?h = "handler example_sharp example_generateAsync example_options (Some ''pack.zip'') ?es"
  note t = statistics_consistent
    [of example_sharp example_options ?es example_generateAsync "Some ''pack.zip''"]
  have a: "archive_size ?es = 7"
    by (simp add: archive_size_def)
  have z: "optimizedZip (process_entries example_sharp example_options ?es initial_state)
       = [Folder_call ''a/'', File_call ''a/x.webp'' [1, 2], File_call ''notes.md'' [5, 6, 7]]"
    by (simp add: loop_eval string_tests)
  from t a have o: "originalSize (stats (process_entries example_sharp example_options ?es
      initial_state)) = 7"
    by simp
  from t z have w: "optimizedSize (stats (process_entries example_sharp example_options ?es
      initial_state)) = 5"
    by (simp add: written_size_def)
  have m: "toFixed2 (Finite (fl (fl (25 / 128) / 1024))) = ''0.00''"
    by code_simp
  have n: "\<not> list_ex invalid_header_char (output_name (Some ''pack.zip'') ''0.00'')"
    by (simp add: output_name_def replace_str_def invalid_header_char_def)
  from finish_succeeds [of example_generateAsync _ "replicate 200 0" "''0.00''" "Some ''pack.zip''"]
    m n
  have "\<not> isl ?h"
    by (simp add: handler_def process_entries_def [symmetric] example_generateAsync_def)
  then have h: "?h = Inr (projr ?h)"
    by (cases ?h) simp_all
  from t h have r: "example_generateAsync
        (zip_files (optimizedZip (process_entries example_sharp example_options ?es initial_state)))
        = Inr (body (projr ?h))"
    "finalZipSize (projr ?h) = length (body (projr ?h))"
    "savedBytes (projr ?h) = int (archive_size ?es) - int (finalZipSize (projr ?h))"
    "savedPercent (projr ?h) =
       toFixed2 (times_100 (divide_num (of_int (savedBytes (projr ?h)))
                                       (of_nat (archive_size ?es))))"
    by blast+
  from r(1) have b: "body (projr ?h) = replicate 200 0"
    by (simp add: example_generateAsync_def)
  from r(2) b have f: "finalZipSize (projr ?h) = 200"
    by simp
  from r(3) f a have s: "savedBytes (projr ?h) = - 193"
    by simp
  have p: "toFixed2 (times_100 (divide_num (- 193) 7)) = ''-2757.14''"
    by code_simp
  from r(4) s a p have q: "savedPercent (projr ?h) = ''-2757.14''"
    by simp
  from a o z w f s q show ?thesis by blast
qed

text \<open>
  The claim as it is written fails where the quotient has more than two decimals. For
  one file of 64 bytes and an archive of 177 bytes the quotient is \<open>-176.5625\<close>, exactly
  so on doubles too, and \<open>savedPercent\<close> is the text \<^verbatim>\<open>-176.56\<close>.
\<close>

theorem statistics_counterexample:
  "originalSize (x_stats (projr (handler example_sharp (\<lambda>table. Inr (replicate 177 0))
        example_options (Some ''pack.zip'') [(''LICENSE'', File (replicate 64 0))]))) = 64
   \<and> finalZipSize (projr (handler example_sharp (\<lambda>table. Inr (replicate 177 0))
        example_options (Some ''pack.zip'') [(''LICENSE'', File (replicate 64 0))])) = 177
   \<and> savedPercent (projr (handler example_sharp (\<lambda>table. Inr (replicate 177 0))
        example_options (Some ''pack.zip'') [(''LICENSE'', File (replicate 64 0))])) = ''-176.56''
   \<and> ((64 - 177) / 64 * 100 :: rat) = - 2825 / 16
   \<and> (- 2825 / 16 :: rat) \<noteq> - 17656 / 100"
proof -
  let ?st = "process_entry example_sharp example_options (''LICENSE'', File (replicate 64 0))
    initial_state"
  have p: "toFixed2 (times_100 (divide_num (- 113) 64)) = ''-176.56''"
    by code_simp
  have m: "toFixed2 (Finite (fl (fl (177 / 1024) / 1024))) = ''0.00''"
    by code_simp
  have n: "\<not> list_ex invalid_header_char (output_name (Some ''pack.zip'') ''0.00'')"
    by (simp add: output_name_def replace_str_def invalid_header_char_def)
  have o: "classify ''LICENSE'' = Other_class"
    by (simp add: classify_def string_tests)
  have s: "originalSize (stats ?st) = 64"
    by (simp add: process_entry_Other [OF o] initial_state_def)
  have h: "handler example_sharp (\<lambda>table. Inr (replicate 177 0)) example_options
      (Some ''pack.zip'') [(''LICENSE'', File (replicate 64 0))]
      = finish (\<lambda>table. Inr (replicate 177 0)) (Some ''pack.zip'') ?st"
    by (simp add: handler_def)
  from finish_succeeds [of "\<lambda>table. Inr (replicate 177 0)" ?st "replicate 177 0" "''0.00''"
      "Some ''pack.zip''"] m n
  show ?thesis
    unfolding h by (simp add: s p)
qed

subsection \<open>The name of the download\<close>

text \<open>
  C9. The claim is that a final \<^verbatim>\<open>.zip\<close> of the uploaded name is replaced and that no
  other occurrence of \<^verbatim>\<open>.zip\<close> is touched. Line 336 calls \<^verbatim>\<open>replace\<close> with the string
  \<^verbatim>\<open>'.zip'\<close>, which replaces the first occurrence: for the name \<^verbatim>\<open>pack.zip.zip\<close> the
  first \<^verbatim>\<open>.zip\<close> is replaced and the final one is kept, and for the name
  \<^verbatim>\<open>textures.zip.old\<close>, which has no final \<^verbatim>\<open>.zip\<close>, the inner one is replaced.
  (Line 281 replaces the extension of an image with the anchored pattern
  \<^verbatim>\<open>/\.png$/i\<close>.)
\<close>

theorem output_name_replaces_first_occurrence:
  "output_name (Some ''pack.zip.zip'') ''1.00'' = ''pack-optimized-1.00mb.zip.zip''
   \<and> output_name (Some ''pack.zip.zip'') ''1.00'' \<noteq> ''pack.zip-optimized-1.00mb.zip''
   \<and> output_name (Some ''textures.zip.old'') ''1.00'' = ''textures-optimized-1.00mb.zip.old''
   \<and> content_disposition (projr (handler example_sharp example_generateAsync example_options
        (Some ''pack.zip.zip'') [(''pack.mcmeta'', File [1, 2, 3])]))
       = ''attachment; filename='' @ [CHR 0x22] @ ''pack-optimized-0.00mb.zip.zip'' @ [CHR 0x22]"
proof -
  have n: "output_name (Some ''pack.zip.zip'') sizeMB
      = ''pack'' @ getSubstitution ''.zip'' ''pack'' ''.zip'' (''-optimized-'' @ sizeMB @ ''mb.zip'')
        @ ''.zip''" for sizeMB
    by (simp add: output_name_def replace_str_def)
  have m: "toFixed2 (Finite (fl (fl (25 / 128) / 1024))) = ''0.00''"
    by code_simp
  have v: "\<not> list_ex invalid_header_char (output_name (Some ''pack.zip.zip'') ''0.00'')"
    by (simp add: n invalid_header_char_def)
  have h: "handler example_sharp example_generateAsync example_options
      (Some ''pack.zip.zip'') [(''pack.mcmeta'', File [1, 2, 3])]
      = finish example_generateAsync (Some ''pack.zip.zip'')
          (process_entry example_sharp example_options (''pack.mcmeta'', File [1, 2, 3])
             initial_state)"
    by (simp add: handler_def)
  from finish_succeeds [of example_generateAsync _ "replicate 200 0" "''0.00''"
      "Some ''pack.zip.zip''"] m v
  have c: "content_disposition (projr (handler example_sharp example_generateAsync example_options
        (Some ''pack.zip.zip'') [(''pack.mcmeta'', File [1, 2, 3])]))
       = ''attachment; filename='' @ [CHR 0x22] @ output_name (Some ''pack.zip.zip'') ''0.00''
         @ [CHR 0x22]"
    unfolding h by (simp add: example_generateAsync_def)
  have o: "output_name (Some ''textures.zip.old'') ''1.00'' = ''textures-optimized-1.00mb.zip.old''"
    by (simp add: output_name_def replace_str_def)
  from n [of "''1.00''"] n [of "''0.00''"] c o show ?thesis
    by simp
qed

subsection \<open>The names in the output archive\<close>

declare folderAdd.simps [simp del]

lemma endsWith_slash: "endsWith s ''/'' \<longleftrightarrow> s \<noteq> [] \<and> last s = CHR ''/''"
proof (cases s rule: rev_cases)
  case Nil
  then show ?thesis by (simp add: endsWith_def)
next
  case (snoc xs x)
  then show ?thesis by (auto simp add: endsWith_def)
qed

lemma endsWith_append: "endsWith s p \<longleftrightarrow> (\<exists>pre. s = pre @ p)"
proof
  assume "endsWith s p"
  then have "s = take (length s - length p) s @ p"
    by (metis append_take_drop_id endsWith_def)
  then show "\<exists>pre. s = pre @ p" ..
next
  assume "\<exists>pre. s = pre @ p"
  then show "endsWith s p" by (auto simp add: endsWith_def)
qed

text \<open>Every name of the table stays in it, and a folder added is in it.\<close>

lemma folderAdd_keys:
  "fst ` set table \<subseteq> fst ` set (folderAdd name table)
   \<and> forceTrailingSlash name \<in> fst ` set (folderAdd name table)"
proof (induction name table rule: folderAdd.induct)
  case (1 name table)
  show ?case
  proof (cases "map_of table (forceTrailingSlash name) \<noteq> None")
    case True
    then have "folderAdd name table = table"
      by (subst folderAdd.simps) (simp add: Let_def)
    moreover from True have "forceTrailingSlash name \<in> fst ` set table"
      by (simp add: map_of_eq_None_iff)
    ultimately show ?thesis by simp
  next
    case False
    show ?thesis
    proof (cases "parentFolder (forceTrailingSlash name) \<noteq> []")
      case True
      with False have eq: "folderAdd name table =
          AList.update (forceTrailingSlash name) Dir
            (folderAdd (parentFolder (forceTrailingSlash name)) table)"
        by (subst folderAdd.simps) (simp add: Let_def)
      from "1.IH" [OF refl False refl True]
      have "fst ` set table \<subseteq> fst ` set (folderAdd (parentFolder (forceTrailingSlash name)) table)"
        by simp
      with eq show ?thesis by (auto simp add: dom_update)
    next
      case nop: False
      with False have "folderAdd name table = AList.update (forceTrailingSlash name) Dir table"
        by (subst folderAdd.simps) (simp add: Let_def)
      then show ?thesis by (auto simp add: dom_update)
    qed
  qed
qed

lemma fileAdd_keys:
  "fst ` set table \<subseteq> fst ` set (fileAdd name data table)
   \<and> name \<in> fst ` set (fileAdd name data table)"
  using folderAdd_keys [of table "parentFolder name"]
  by (auto simp add: fileAdd_def Let_def dom_update)

lemma apply_call_keys: "fst ` set table \<subseteq> fst ` set (apply_call c table)"
  using folderAdd_keys fileAdd_keys
  by (cases c) (auto simp add: apply_call_def)

lemma fold_apply_call_keys:
  "fst ` set table \<subseteq> fst ` set (fold apply_call calls table)"
proof (induction calls arbitrary: table)
  case Nil
  show ?case by simp
next
  case (Cons c calls)
  from apply_call_keys [of table c] Cons.IH [of "apply_call c table"]
  show ?case by auto
qed

lemma fold_apply_call_file:
  "File_call name data \<in> set calls \<Longrightarrow> name \<in> fst ` set (fold apply_call calls table)"
proof (induction calls arbitrary: table)
  case Nil
  then show ?case by simp
next
  case (Cons c calls)
  show ?case
  proof (cases "c = File_call name data")
    case True
    then have "name \<in> fst ` set (apply_call c table)"
      using fileAdd_keys [of table name data] by (simp add: apply_call_def)
    with fold_apply_call_keys [of "apply_call c table" calls] show ?thesis by auto
  next
    case False
    with Cons.prems have "File_call name data \<in> set calls" by simp
    from Cons.IH [OF this, of "apply_call c table"] show ?thesis by simp
  qed
qed

lemma fold_apply_call_folder:
  "Folder_call name \<in> set calls \<Longrightarrow> name \<noteq> [] \<Longrightarrow>
   forceTrailingSlash name \<in> fst ` set (fold apply_call calls table)"
proof (induction calls arbitrary: table)
  case Nil
  then show ?case by simp
next
  case (Cons c calls)
  show ?case
  proof (cases "c = Folder_call name")
    case True
    with Cons.prems have "forceTrailingSlash name \<in> fst ` set (apply_call c table)"
      using folderAdd_keys [of table name] by (simp add: apply_call_def)
    with fold_apply_call_keys [of "apply_call c table" calls] show ?thesis by auto
  next
    case False
    with Cons.prems have "Folder_call name \<in> set calls" by simp
    from Cons.IH [OF this Cons.prems(2), of "apply_call c table"] show ?thesis by simp
  qed
qed

lemma folderAdd_dirs:
  "slash_names_are_dirs table \<Longrightarrow> slash_names_are_dirs (folderAdd name table)"
proof (induction name table rule: folderAdd.induct)
  case (1 name table)
  show ?case
  proof (cases "map_of table (forceTrailingSlash name) \<noteq> None")
    case True
    then have "folderAdd name table = table"
      by (subst folderAdd.simps) (simp add: Let_def)
    with "1.prems" show ?thesis by simp
  next
    case False
    show ?thesis
    proof (cases "parentFolder (forceTrailingSlash name) \<noteq> []")
      case True
      with False have eq: "folderAdd name table =
          AList.update (forceTrailingSlash name) Dir
            (folderAdd (parentFolder (forceTrailingSlash name)) table)"
        by (subst folderAdd.simps) (simp add: Let_def)
      from "1.IH" [OF refl False refl True "1.prems"]
      have "slash_names_are_dirs (folderAdd (parentFolder (forceTrailingSlash name)) table)" .
      then show ?thesis
        unfolding eq by (simp add: slash_names_are_dirs_def update_conv')
    next
      case nop: False
      with False have "folderAdd name table = AList.update (forceTrailingSlash name) Dir table"
        by (subst folderAdd.simps) (simp add: Let_def)
      with "1.prems" show ?thesis
        by (simp add: slash_names_are_dirs_def update_conv')
    qed
  qed
qed

lemma fileAdd_dirs:
  assumes "slash_names_are_dirs table" and "\<not> endsWith name ''/''"
  shows "slash_names_are_dirs (fileAdd name data table)"
proof -
  have "slash_names_are_dirs (if parentFolder name \<noteq> [] then folderAdd (parentFolder name) table
      else table)"
    using assms(1) folderAdd_dirs by simp
  with assms(2) show ?thesis
    by (auto simp add: fileAdd_def Let_def slash_names_are_dirs_def update_conv')
qed

lemma fold_apply_call_dirs:
  "slash_names_are_dirs table \<Longrightarrow> list_all file_name_ok calls \<Longrightarrow>
   slash_names_are_dirs (fold apply_call calls table)"
proof (induction calls arbitrary: table)
  case Nil
  then show ?case by simp
next
  case (Cons c calls)
  from Cons.prems have "slash_names_are_dirs (apply_call c table)"
    using folderAdd_dirs fileAdd_dirs
    by (cases c) (auto simp add: apply_call_def)
  with Cons.IH [of "apply_call c table"] Cons.prems show ?case by simp
qed

lemma zip_files_folder_is_dir:
  assumes "Folder_call name \<in> set calls" and "endsWith name ''/''"
    and "list_all file_name_ok calls"
  shows "map_of (zip_files calls) name = Some Dir"
proof -
  from assms(2) have ne: "name \<noteq> []" and id: "forceTrailingSlash name = name"
    by (simp_all add: endsWith_slash forceTrailingSlash_def)
  from fold_apply_call_folder [OF assms(1) ne, of "[]"] id
  have "name \<in> fst ` set (zip_files calls)"
    by (simp add: zip_files_def)
  then obtain e where e: "map_of (zip_files calls) name = Some e"
    by (metis domD dom_map_of_conv_image_fst)
  have "slash_names_are_dirs (zip_files calls)"
    unfolding zip_files_def
    by (rule fold_apply_call_dirs [OF _ assms(3)]) (simp add: slash_names_are_dirs_def)
  with e assms(2) show ?thesis
    by (simp add: slash_names_are_dirs_def)
qed

lemma process_entry_calls:
  "optimizedZip (process_entry lib opts entry st) = optimizedZip st @ entry_calls lib opts entry"
proof (cases entry)
  case (Pair filename z)
  show ?thesis
  proof (cases z)
    case Dir
    with Pair show ?thesis
      by (simp add: process_entry_Dir zip_folder_def entry_calls_def)
  next
    case (Unreadable e)
    with Pair show ?thesis
      by (simp add: process_entry_Unreadable entry_calls_def)
  next
    case (File fileData)
    show ?thesis
    proof (cases "classify filename")
      case Critical_class
      with Pair File show ?thesis by (simp add: process_entry_Critical entry_calls_def)
    next
      case Sound_class
      with Pair File show ?thesis by (simp add: process_entry_Sound entry_calls_def)
    next
      case Other_class
      with Pair File show ?thesis by (simp add: process_entry_Other entry_calls_def)
    next
      case Image_class
      show ?thesis
      proof (cases "image_block lib opts filename fileData (image_entry_state fileData st)")
        case (Inl e)
        then have "sharp_metadata lib fileData = Inl e"
          by (simp add: image_block_Inl)
        with Pair File Image_class Inl show ?thesis
          by (simp add: process_entry_Image image_catch_def zip_file_def image_entry_state_def
              Let_def entry_calls_def)
      next
        case (Inr st')
        have "\<not> isl (sharp_metadata lib fileData)"
        proof (cases "sharp_metadata lib fileData")
          case (Inl e)
          then have "image_block lib opts filename fileData (image_entry_state fileData st) = Inl e"
            by (simp add: image_block_Inl)
          with Inr show ?thesis by simp
        next
          case (Inr m)
          then show ?thesis by simp
        qed
        with Pair File Image_class Inr image_block_calls [OF Inr] show ?thesis
          by (simp add: process_entry_Image image_entry_state_def entry_calls_def)
      qed
    qed
  qed
qed

lemma process_entries_calls:
  "optimizedZip (process_entries lib opts entries st)
     = optimizedZip st @ concat (map (entry_calls lib opts) entries)"
proof (induction entries arbitrary: st)
  case Nil
  show ?case by (simp add: process_entries_def)
next
  case (Cons entry entries)
  have "process_entries lib opts (entry # entries) st
      = process_entries lib opts entries (process_entry lib opts entry st)"
    by (simp add: process_entries_def)
  with Cons.IH [of "process_entry lib opts entry st"] process_entry_calls [of lib opts entry st]
  show ?case by simp
qed

lemma output_table_calls:
  "output_table lib opts entries = zip_files (concat (map (entry_calls lib opts) entries))"
  by (simp add: output_table_def process_entries_calls initial_state_def)

text \<open>When the loop ends without an exception, this is the table the serialiser is given.\<close>

lemma output_table_handler_loop:
  assumes "handler_loop lib opts entries initial_state = Inr st"
  shows "zip_files (optimizedZip st) = output_table lib opts entries"
  using handler_loop_Inr [OF assms] by (simp add: output_table_def)

lemma endsWith_png:
  assumes "endsWith filename ''.png''"
  shows "isImageFile filename" and "\<not> isSoundFile filename"
    and "new_filename ''webp'' filename = take (length filename - 4) filename @ ''.webp''"
proof -
  from assms obtain pre where f: "filename = pre @ ''.png''"
    by (auto simp add: endsWith_append)
  show "isImageFile filename"
    by (simp add: f isImageFile_def test_suffix_i_def endsWith_def)
  show "\<not> isSoundFile filename"
    by (simp add: f isSoundFile_def test_suffix_i_def endsWith_def canonicalize_def)
  have "test_suffix_i ''.png'' filename"
    by (simp add: f test_suffix_i_def endsWith_def)
  with assms show "new_filename ''webp'' filename = take (length filename - 4) filename @ ''.webp''"
    by (simp add: new_filename_def replace_png_suffix_def f)
qed

lemma entry_calls_name_ok:
  assumes "well_formed entries" and "format opts = ''png'' \<or> format opts = ''webp''"
    and "entry \<in> set entries"
  shows "list_all file_name_ok (entry_calls lib opts entry)"
proof (cases entry)
  case (Pair filename z)
  show ?thesis
  proof (cases z)
    case Dir
    with Pair show ?thesis by (simp add: entry_calls_def)
  next
    case (Unreadable e)
    with Pair show ?thesis by (simp add: entry_calls_def)
  next
    case (File fileData)
    with Pair assms(1,3) have ns: "\<not> endsWith filename ''/''"
      by (auto simp add: well_formed_def list_all_iff)
    have "\<not> endsWith (new_filename (format opts) filename) ''/''"
    proof (cases "format opts \<noteq> ''png'' \<and> endsWith filename ''.png''")
      case True
      with assms(2) have w: "format opts = ''webp''" by simp
      from True endsWith_png(3) [of filename] w show ?thesis
        by (simp add: endsWith_slash)
    next
      case False
      with ns show ?thesis by (auto simp add: new_filename_def)
    qed
    with ns Pair File show ?thesis
      by (simp add: entry_calls_def)
  qed
qed

text \<open>
  C7, as the code has it. Every file of the input has a name in the output archive: its
  own name, unless the format is not \<^verbatim>\<open>png\<close>, the name ends in \<^verbatim>\<open>.png\<close>, no critical
  pattern matches the name and the metadata of the image is read; then it is the name
  with the new extension. A critical file such as \<^verbatim>\<open>pack.png\<close> and an image that
  cannot be read keep their names. Every directory of the input is a directory of the
  output archive under two conditions: the input is well formed, as an archive that was
  loaded is (the names of the directories, and only they, end in a slash), and the
  format is \<^verbatim>\<open>png\<close> or \<^verbatim>\<open>webp\<close>. (The format is a text of the request; with a format
  that ends in a slash the name of an image that is renamed can be the name of a
  directory, which the image then replaces.)
\<close>

theorem archive_names_preserved:
  assumes "(filename, e) \<in> set entries"
  shows "(\<forall>fileData. e = File fileData \<longrightarrow>
            (if classify filename = Image_class \<and> \<not> isl (sharp_metadata lib fileData)
             then new_filename (format opts) filename else filename)
              \<in> fst ` set (output_table lib opts entries))
     \<and> (\<forall>fileData. e = File fileData \<and> format opts = ''webp'' \<longrightarrow>
            (if endsWith filename ''.png'' \<and> \<not> isCriticalFile filename
                \<and> \<not> isl (sharp_metadata lib fileData)
             then take (length filename - 4) filename @ ''.webp'' else filename)
              \<in> fst ` set (output_table lib opts entries))
     \<and> (\<forall>fileData. e = File fileData \<and> format opts = ''png'' \<longrightarrow>
            filename \<in> fst ` set (output_table lib opts entries))
     \<and> (e = Dir \<and> well_formed entries \<and> (format opts = ''png'' \<or> format opts = ''webp'') \<longrightarrow>
            map_of (output_table lib opts entries) filename = Some Dir)"
proof -
  let ?calls = "concat (map (entry_calls lib opts) entries)"
  let ?written = "\<lambda>fileData. if classify filename = Image_class \<and> \<not> isl (sharp_metadata lib fileData)
             then new_filename (format opts) filename else filename"
  have call: "set (entry_calls lib opts (filename, e)) \<subseteq> set ?calls"
    using assms by auto
  have general: "?written fileData \<in> fst ` set (output_table lib opts entries)"
    if "e = File fileData" for fileData
  proof -
    from that
    have "\<exists>data. File_call (?written fileData) data \<in> set (entry_calls lib opts (filename, e))"
      by (simp add: entry_calls_def)
    then obtain data where
      "File_call (?written fileData) data \<in> set (entry_calls lib opts (filename, e))"
      by blast
    with call have "File_call (?written fileData) data \<in> set ?calls"
      by blast
    from fold_apply_call_file [OF this, of "[]"] show ?thesis
      by (simp add: output_table_calls zip_files_def)
  qed
  have webp: "(if endsWith filename ''.png'' \<and> \<not> isCriticalFile filename
                \<and> \<not> isl (sharp_metadata lib fileData)
             then take (length filename - 4) filename @ ''.webp'' else filename)
              \<in> fst ` set (output_table lib opts entries)"
    if "e = File fileData" and w: "format opts = ''webp''" for fileData
  proof -
    have "?written fileData =
        (if endsWith filename ''.png'' \<and> \<not> isCriticalFile filename
            \<and> \<not> isl (sharp_metadata lib fileData)
         then take (length filename - 4) filename @ ''.webp'' else filename)"
    proof (cases "endsWith filename ''.png''")
      case True
      from endsWith_png [OF True] w True show ?thesis
        by (simp add: classify_def)
    next
      case False
      with w show ?thesis by (simp add: new_filename_def)
    qed
    with general [OF that(1)] show ?thesis by simp
  qed
  have png: "filename \<in> fst ` set (output_table lib opts entries)"
    if "e = File fileData" and "format opts = ''png''" for fileData
  proof -
    from that(2) have "new_filename (format opts) filename = filename"
      by (simp add: new_filename_def)
    with general [OF that(1)] show ?thesis by (simp split: if_splits)
  qed
  have dir: "map_of (output_table lib opts entries) filename = Some Dir"
    if "e = Dir" and wf: "well_formed entries"
      and fmt: "format opts = ''png'' \<or> format opts = ''webp''"
  proof -
    from call that(1) have c: "Folder_call filename \<in> set ?calls"
      by (simp add: entry_calls_def)
    from assms that(1) wf have s: "endsWith filename ''/''"
      by (auto simp add: well_formed_def list_all_iff)
    have ok: "list_all file_name_ok ?calls"
      using entry_calls_name_ok [OF wf fmt] by (auto simp add: list_all_iff)
    from zip_files_folder_is_dir [OF c s ok] show ?thesis
      by (simp add: output_table_calls)
  qed
  from general webp png dir show ?thesis by blast
qed

text \<open>The equations that evaluate the table of the output archive.\<close>

lemmas table_eval = output_table_def zip_files_def apply_call_def fileAdd_def folderAdd.simps
  parentFolder_def forceTrailingSlash_def

theorem archive_names_preserved_witness:
  "well_formed [(''a/'', Dir), (''a/x.png'', File [64, 64, 1, 2]), (''pack.png'', File [4, 4, 9])]
   \<and> format example_options = ''webp''
   \<and> ''a/x.webp'' \<in> fst ` set (output_table example_sharp example_options
        [(''a/'', Dir), (''a/x.png'', File [64, 64, 1, 2]), (''pack.png'', File [4, 4, 9])])
   \<and> ''pack.png'' \<in> fst ` set (output_table example_sharp example_options
        [(''a/'', Dir), (''a/x.png'', File [64, 64, 1, 2]), (''pack.png'', File [4, 4, 9])])
   \<and> map_of (output_table example_sharp example_options
        [(''a/'', Dir), (''a/x.png'', File [64, 64, 1, 2]), (''pack.png'', File [4, 4, 9])])
        ''a/'' = Some Dir"
proof -
  let ?es = "[(''a/'', Dir), (''a/x.png'', File [64, 64, 1, 2]), (''pack.png'', File [4, 4, 9])]"
  let ?out = "output_table example_sharp example_options ?es"
  have wf: "well_formed ?es"
    by (simp add: well_formed_def endsWith_def)
  have w: "format example_options = ''webp''"
    by (simp add: example_options_def)
  have x: "endsWith ''a/x.png'' ''.png''" "\<not> isCriticalFile ''a/x.png''"
    "\<not> isl (sharp_metadata example_sharp [64, 64, 1, 2])"
    by (simp_all add: string_tests example_sharp_def)
  have p: "isCriticalFile ''pack.png''"
    by (simp add: string_tests)
  have "(''a/x.png'', File [64, 64, 1, 2]) \<in> set ?es"
    by simp
  from archive_names_preserved [OF this, of example_sharp example_options,
      THEN conjunct2, THEN conjunct1, THEN spec, of "[64, 64, 1, 2]"] w x
  have 1: "''a/x.webp'' \<in> fst ` set ?out"
    by simp
  have "(''pack.png'', File [4, 4, 9]) \<in> set ?es"
    by simp
  from archive_names_preserved [OF this, of example_sharp example_options,
      THEN conjunct2, THEN conjunct1, THEN spec, of "[4, 4, 9]"] w p
  have 2: "''pack.png'' \<in> fst ` set ?out"
    by simp
  have "(''a/'', Dir) \<in> set ?es"
    by simp
  from archive_names_preserved [OF this, of example_sharp example_options,
      THEN conjunct2, THEN conjunct2, THEN conjunct2] w wf
  have 3: "map_of ?out ''a/'' = Some Dir"
    by simp
  from wf w 1 2 3 show ?thesis by blast
qed

text \<open>
  The claim as it is written fails for a name that ends in \<^verbatim>\<open>.png\<close> and is not
  renamed although the format is \<^verbatim>\<open>webp\<close>: the critical file \<^verbatim>\<open>pack.png\<close>, and an
  image whose metadata cannot be read. Each keeps its name; the name with the new
  extension is not in the output archive. It fails for a directory too when the format
  of the request is the text \<^verbatim>\<open>/\<close>: the image \<^verbatim>\<open>a/x.png\<close> is written under the name
  \<^verbatim>\<open>a/x./\<close>, and the directory of that name is a file in the output archive.
\<close>

theorem archive_names_counterexample:
  "format example_options = ''webp''
   \<and> endsWith ''pack.png'' ''.png'' \<and> endsWith ''mobs/broken.png'' ''.png''
   \<and> output_table example_sharp example_options
        [(''pack.png'', File [4, 4, 9]), (''mobs/broken.png'', File [1])]
       = [(''pack.png'', File [4, 4, 9]), (''mobs/'', Dir), (''mobs/broken.png'', File [1])]
   \<and> map_of (output_table example_sharp example_options
        [(''pack.png'', File [4, 4, 9]), (''mobs/broken.png'', File [1])]) ''pack.webp'' = None
   \<and> map_of (output_table example_sharp example_options
        [(''pack.png'', File [4, 4, 9]), (''mobs/broken.png'', File [1])]) ''mobs/broken.webp''
       = None
   \<and> well_formed [(''a/x./'', Dir), (''a/x.png'', File [64, 64, 1, 2])]
   \<and> output_table example_sharp (example_options\<lparr>format := ''/''\<rparr>)
        [(''a/x./'', Dir), (''a/x.png'', File [64, 64, 1, 2])]
       = [(''a/'', Dir), (''a/x./'', File [1, 2])]
   \<and> map_of (output_table example_sharp (example_options\<lparr>format := ''/''\<rparr>)
        [(''a/x./'', Dir), (''a/x.png'', File [64, 64, 1, 2])]) ''a/x./'' = Some (File [1, 2])"
proof -
  have t: "output_table example_sharp example_options
        [(''pack.png'', File [4, 4, 9]), (''mobs/broken.png'', File [1])]
       = [(''pack.png'', File [4, 4, 9]), (''mobs/'', Dir), (''mobs/broken.png'', File [1])]"
    by (simp add: table_eval loop_eval string_tests)
  have u: "output_table example_sharp (example_options\<lparr>format := ''/''\<rparr>)
        [(''a/x./'', Dir), (''a/x.png'', File [64, 64, 1, 2])]
       = [(''a/'', Dir), (''a/x./'', File [1, 2])]"
    by (simp add: table_eval loop_eval string_tests)
  have w: "well_formed [(''a/x./'', Dir), (''a/x.png'', File [64, 64, 1, 2])]"
    by (simp add: well_formed_def endsWith_def)
  show ?thesis
    unfolding t u using w by (simp add: example_options_def endsWith_def)
qed

end
